theory Spec2Isabelle
  imports Complex_Main "HOL-Library.Multiset"
begin

section \<open>JavaScript strings\<close>

text \<open>
  The scraper (\<^verbatim>\<open>scraper/execute.ts\<close>) works on JavaScript strings. A string is modelled as a
  list of 8-bit characters, read as the code units U+0000 to U+00FF; the string methods the
  scraper calls are written out below for that alphabet.
\<close>

abbreviation LF :: char where
  "LF \<equiv> CHR 0x0A"

text \<open>\<^verbatim>\<open>s.startsWith(w)\<close>, \<^verbatim>\<open>s.endsWith(w)\<close> and \<^verbatim>\<open>s.includes(w)\<close>.\<close>

definition startsWith :: "string \<Rightarrow> string \<Rightarrow> bool" where
  "startsWith s w = (take (length w) s = w)"

definition endsWith :: "string \<Rightarrow> string \<Rightarrow> bool" where
  "endsWith s w = (length w \<le> length s \<and> drop (length s - length w) s = w)"

fun includesStr :: "string \<Rightarrow> string \<Rightarrow> bool" where
  "includesStr [] w = (w = [])"
| "includesStr (c # cs) w = (startsWith (c # cs) w \<or> includesStr cs w)"

text \<open>
  \<^verbatim>\<open>s.toLowerCase()\<close>: within U+0000 to U+00FF the letters with a lower-case partner are
  A to Z and U+00C0 to U+00DE without the multiplication sign U+00D7; the partner is 32
  code units further on.
\<close>

definition toLowerChar :: "char \<Rightarrow> char" where
  "toLowerChar c =
     (let n = (of_char c :: nat)
      in if (65 \<le> n \<and> n \<le> 90) \<or> (192 \<le> n \<and> n \<le> 222 \<and> n \<noteq> 215)
         then char_of (n + 32) else c)"

definition toLowerCase :: "string \<Rightarrow> string" where
  "toLowerCase s = map toLowerChar s"

section \<open>Classifier: categorizeChanges\<close>

datatype category = Performance | Security | Features | Bugs

text \<open>The \<^verbatim>\<open>categories\<close> object: one array of change items per category.\<close>

record categories =
  performance :: "string list"
  security :: "string list"
  features :: "string list"
  bugs :: "string list"

definition emptyCategories :: categories where
  "emptyCategories = \<lparr>performance = [], security = [], features = [], bugs = []\<rparr>"

definition securityWords :: "string list" where
  "securityWords = [''cve'']"

definition performanceWords :: "string list" where
  "performanceWords =
     [''performance'', ''speed'', ''faster'', ''optimization'', ''improve'', ''reduce'',
      ''enhance'', ''boost'', ''accelerate'', ''better'', ''efficient'']"

definition bugsWords :: "string list" where
  "bugsWords =
     [''fix'', ''issue'', ''crash'', ''overflow'', ''error'', ''bug'', ''problem'', ''flaw'',
      ''mistake'', ''patch'', ''repair'', ''resolve'']"

definition featuresWords :: "string list" where
  "featuresWords =
     [''new feature'', ''added'', ''introduced'', ''now supports'', ''new option'',
      ''new parameter'', ''new setting'', ''new command'', ''new function'', ''new syntax'',
      ''new capability'', ''new behavior'', ''new flag'', ''new directive'', ''new method'',
      ''new property'', ''new API'', ''new interface'', ''new class'', ''new module'',
      ''new package'', ''new library'', ''new framework'', ''new tool'', ''new utility'',
      ''new plugin'', ''new extension'', ''new integration'', ''new support'',
      ''new compatibility'', ''new standard'', ''new protocol'', ''new format'',
      ''new language'', ''new technology'', ''new system'', ''new service'',
      ''new application'', ''new feature'', ''new enhancement'', ''new improvement'',
      ''new addition'', ''new change'', ''new update'', ''new upgrade'', ''new version'']"

text \<open>
  \<^verbatim>\<open>Object.entries(keywords)\<close>: the properties of the keywords object, in the order in
  which its literal writes them (security, performance, bugs, features).
\<close>

definition keywordEntries :: "(category \<times> string list) list" where
  "keywordEntries =
     [(Security, securityWords), (Performance, performanceWords),
      (Bugs, bugsWords), (Features, featuresWords)]"

text \<open>\<^verbatim>\<open>words.some((word) => lowerChange.includes(word))\<close>\<close>

definition someWord :: "string \<Rightarrow> string list \<Rightarrow> bool" where
  "someWord lowerChange ws = list_ex (includesStr lowerChange) ws"

text \<open>
  The inner \<^verbatim>\<open>for\<close> loop over the keyword entries, for one change. The result is the
  category the change was pushed to inside the loop, or \<open>None\<close> when the loop ended, by
  \<^verbatim>\<open>break\<close> or by exhaustion, with \<^verbatim>\<open>categorized\<close> still false.
\<close>

fun keywordLoop :: "bool \<Rightarrow> string \<Rightarrow> (category \<times> string list) list \<Rightarrow> category option" where
  "keywordLoop is_major lowerChange [] = None"
| "keywordLoop is_major lowerChange ((cat, ws) # rest) =
     (if \<not> is_major \<and> (cat = Features \<or> cat = Performance) then None
      else if someWord lowerChange ws then Some cat
      else keywordLoop is_major lowerChange rest)"

text \<open>\<^verbatim>\<open>categories[category].push(change)\<close>\<close>

fun push :: "category \<Rightarrow> string \<Rightarrow> categories \<Rightarrow> categories" where
  "push Performance change cs = cs\<lparr>performance := performance cs @ [change]\<rparr>"
| "push Security change cs = cs\<lparr>security := security cs @ [change]\<rparr>"
| "push Features change cs = cs\<lparr>features := features cs @ [change]\<rparr>"
| "push Bugs change cs = cs\<lparr>bugs := bugs cs @ [change]\<rparr>"

text \<open>The body of \<^verbatim>\<open>changes.forEach\<close>, and the whole function.\<close>

definition categorizeChange :: "bool \<Rightarrow> categories \<Rightarrow> string \<Rightarrow> categories" where
  "categorizeChange is_major cs change =
     (case keywordLoop is_major (toLowerCase change) keywordEntries of
        Some cat \<Rightarrow> push cat change cs
      | None \<Rightarrow> push Bugs change cs)"

definition categorizeChanges :: "string list \<Rightarrow> bool \<Rightarrow> categories" where
  "categorizeChanges changes is_major = foldl (categorizeChange is_major) emptyCategories changes"

text \<open>
  The category one change ends in: what \<^const>\<open>categorizeChange\<close> pushes to.
\<close>

definition categoryOf :: "bool \<Rightarrow> string \<Rightarrow> category" where
  "categoryOf is_major change =
     (case keywordLoop is_major (toLowerCase change) keywordEntries of Some cat \<Rightarrow> cat | None \<Rightarrow> Bugs)"

text \<open>
  Whether a change matches a keyword list: some word of the list occurs in the lower-cased
  change.
\<close>

definition matchesWords :: "string list \<Rightarrow> string \<Rightarrow> bool" where
  "matchesWords ws change = someWord (toLowerCase change) ws"

section \<open>Releases: processReleaseNotes\<close>

text \<open>One element of \<^verbatim>\<open>releaseData\<close>, as \<^verbatim>\<open>parseReleaseNotes\<close> pushes it.\<close>

record release =
  version :: string
  releaseDate :: string
  changes :: "string list"

text \<open>One element of \<^verbatim>\<open>processedData\<close>, the content of \<^verbatim>\<open>release_notes.json\<close>.\<close>

record processedRelease =
  pVersion :: string
  pReleaseDate :: string
  pCategories :: categories

text \<open>The function that \<^verbatim>\<open>processReleaseNotes\<close> maps over the releases.\<close>

definition processRelease :: "release \<Rightarrow> processedRelease" where
  "processRelease r =
     \<lparr>pVersion = version r, pReleaseDate = releaseDate r,
      pCategories = categorizeChanges (changes r) (endsWith (version r) ''.0'')\<rparr>"

section \<open>More string methods\<close>

text \<open>
  \<^verbatim>\<open>s.trim()\<close> removes white space at both ends; within U+0000 to U+00FF the white space
  and line terminator code units are tab, line feed, vertical tab, form feed, carriage
  return, space and the no-break space U+00A0.
\<close>

definition isWhiteSpace :: "char \<Rightarrow> bool" where
  "isWhiteSpace c =
     (c \<in> set [CHR 0x09, CHR 0x0A, CHR 0x0B, CHR 0x0C, CHR 0x0D, CHR 0x20, CHR 0xA0])"

definition trim :: "string \<Rightarrow> string" where
  "trim s = rev (dropWhile isWhiteSpace (rev (dropWhile isWhiteSpace s)))"

text \<open>
  \<^verbatim>\<open>s.split(sep)\<close> for a non-empty separator, the only kind the scraper passes: the pieces
  between the non-overlapping occurrences of \<open>sep\<close>, found from the left. The result always
  has at least one piece.
\<close>

function splitStr :: "string \<Rightarrow> string \<Rightarrow> string list" where
  "splitStr sep s =
     (if s = [] then [] # []
      else if sep \<noteq> [] \<and> startsWith s sep then [] # splitStr sep (drop (length sep) s)
      else (case splitStr sep (tl s) of [] \<Rightarrow> [hd s] # [] | p # ps \<Rightarrow> (hd s # p) # ps))"
  by pat_completeness auto
termination
  by (relation "measure (\<lambda>(sep, s). length s)") auto

declare splitStr.simps [simp del]

text \<open>\<^verbatim>\<open>item.indexOf("\n")\<close>: the index of the first line feed, or -1.\<close>

definition indexOfLF :: "string \<Rightarrow> int" where
  "indexOfLF s = (if LF \<in> set s then int (length (takeWhile (\<lambda>c. c \<noteq> LF) s)) else - 1)"

section \<open>Title, description and contributor parser\<close>

subsection \<open>extractContributors\<close>

definition isParen :: "char \<Rightarrow> bool" where
  "isParen c = (c = CHR ''('' \<or> c = CHR '')'')"

text \<open>
  The regular expression \<^verbatim>\<open>/[^\]]\(([^()]+)\)(?:\n|$)/\<close> tried at the start of \<open>s\<close>: one
  character other than \<open>]\<close>, an opening parenthesis, the longest run of characters that are
  not parentheses (group 1, not empty), a closing parenthesis, and then a line feed, which
  the match takes in, or the end of the input (the expression has no \<open>m\<close> flag). The result
  is the match array: the whole match, then group 1.
\<close>

definition contributorsMatchAt :: "string \<Rightarrow> string list option" where
  "contributorsMatchAt s =
     (case s of
        c # p # r \<Rightarrow>
          (let g = takeWhile (\<lambda>x. \<not> isParen x) r;
               t = dropWhile (\<lambda>x. \<not> isParen x) r
           in if c \<noteq> CHR '']'' \<and> p = CHR ''('' \<and> g \<noteq> [] \<and> t \<noteq> [] \<and> hd t = CHR '')''
              then (if tl t = [] then Some [c # p # g @ '')'', g]
                    else if hd (tl t) = LF then Some [c # p # g @ [CHR '')'', LF], g]
                    else None)
              else None)
      | _ \<Rightarrow> None)"

text \<open>
  \<^verbatim>\<open>item.match(...)\<close> with an expression that has no \<open>g\<close> flag: the match array of the
  leftmost match, or \<open>None\<close> for \<^verbatim>\<open>null\<close>.
\<close>

fun contributorsMatch :: "string \<Rightarrow> string list option" where
  "contributorsMatch [] = None"
| "contributorsMatch (c # cs) =
     (case contributorsMatchAt (c # cs) of Some m \<Rightarrow> Some m | None \<Rightarrow> contributorsMatch cs)"

text \<open>
  The \<^verbatim>\<open>for\<close> loop, which walks the match array from its last element down to its first;
  the argument is the array in that order.
\<close>

fun contributorsLoop :: "string list \<Rightarrow> string list" where
  "contributorsLoop [] = []"
| "contributorsLoop (m # ms) =
     (if \<not> includesStr m ''http'' \<and> \<not> includesStr m ''www.'' \<and> \<not> includesStr m ''CVE-''
      then splitStr '', '' (trim m)
      else contributorsLoop ms)"

definition extractContributors :: "string \<Rightarrow> string list" where
  "extractContributors item =
     (case contributorsMatch item of
        Some matches \<Rightarrow> contributorsLoop (rev matches)
      | None \<Rightarrow> [])"

subsection \<open>extractTitleDescription\<close>

text \<open>
  The regular expression \<^verbatim>\<open>/ \([^\)]+\)$/\<close> tried at the start of \<open>s\<close>: a space, an opening
  parenthesis, one or more characters other than \<open>)\<close>, a closing parenthesis, and the end
  of the input. It matches when it covers all of \<open>s\<close>.
\<close>

definition trailingGroupAt :: "string \<Rightarrow> bool" where
  "trailingGroupAt s =
     (case s of
        a # b # r \<Rightarrow>
          a = CHR '' '' \<and> b = CHR ''('' \<and> r \<noteq> [] \<and> last r = CHR '')''
          \<and> butlast r \<noteq> [] \<and> CHR '')'' \<notin> set (butlast r)
      | _ \<Rightarrow> False)"

text \<open>\<^verbatim>\<open>s.replace(/ \([^\)]+\)$/, "")\<close>: the leftmost match, if any, is cut off.\<close>

fun removeTrailingGroup :: "string \<Rightarrow> string" where
  "removeTrailingGroup [] = []"
| "removeTrailingGroup (c # cs) =
     (if trailingGroupAt (c # cs) then [] else c # removeTrailingGroup cs)"

text \<open>The result is the pair of \<^verbatim>\<open>title\<close> and \<^verbatim>\<open>description\<close>.\<close>

definition extractTitleDescription :: "string \<Rightarrow> string \<times> string" where
  "extractTitleDescription item =
     (let titleEnd = indexOfLF item;
          title = (if titleEnd > 0
                   then removeTrailingGroup (trim (take (nat titleEnd) item))
                   else removeTrailingGroup item);
          description = (if titleEnd > 0 then trim (drop (nat (titleEnd + 1)) item) else [])
      in (title, description))"

subsection \<open>CVE identifiers\<close>

definition isDigit :: "char \<Rightarrow> bool" where
  "isDigit c = (48 \<le> (of_char c :: nat) \<and> (of_char c :: nat) \<le> 57)"

text \<open>
  The regular expression \<^verbatim>\<open>/CVE-\d{4}-\d+/\<close> tried at the start of \<open>s\<close>; the result is the
  matched text.
\<close>

definition cveMatchAt :: "string \<Rightarrow> string option" where
  "cveMatchAt s =
     (let year = take 4 (drop 4 s); rest = drop 9 s
      in if startsWith s ''CVE-'' \<and> length year = 4 \<and> list_all isDigit year
            \<and> startsWith (drop 8 s) ''-'' \<and> takeWhile isDigit rest \<noteq> []
         then Some (take 9 s @ takeWhile isDigit rest)
         else None)"

fun cveMatch :: "string \<Rightarrow> string option" where
  "cveMatch [] = None"
| "cveMatch (c # cs) =
     (case cveMatchAt (c # cs) of Some m \<Rightarrow> Some m | None \<Rightarrow> cveMatch cs)"

section \<open>Aggregator: generateSummary\<close>

text \<open>
  The vulnerability metrics of the advisory service, as far as the scraper reads them: each
  of the three schema versions is absent or an array of entries; an entry of schema 3.0 or
  3.1 carries its severity inside \<^verbatim>\<open>cvssData\<close>, an entry of schema 2 carries it directly.
  Scores are JSON numbers; the scraper only copies them.
\<close>

record cvssData =
  baseSeverity :: string

record cvssMetricV3 =
  cvssData :: cvssData
  impactScoreV3 :: real

record cvssMetricV2 =
  baseSeverityV2 :: string
  impactScoreV2 :: real

record metrics =
  cvssMetricV30 :: "cvssMetricV3 list option"
  cvssMetricV31 :: "cvssMetricV3 list option"
  cvssMetricV2 :: "cvssMetricV2 list option"

text \<open>
  One entry of a category list in \<^verbatim>\<open>release_notes_formatted.json\<close>. A property an entry
  does not have is \<open>None\<close>; \<open>cve = None\<close> on a security entry is \<^verbatim>\<open>null\<close>.
\<close>

record entry =
  cve :: "string option"
  title :: string
  description :: string
  fixedIn :: "string option"
  sinceVersion :: "string option"
  significant :: "bool option"
  contributors :: "string list"
  metrics :: "metrics option"
  severity :: "string option"
  impactScore :: "real option"

definition parseSecurityItem :: "string \<Rightarrow> string \<Rightarrow> entry" where
  "parseSecurityItem item v =
     (let (t, d) = extractTitleDescription item;
          c = cveMatch item;
          cs = extractContributors item
      in \<lparr>cve = c, title = t, description = d, fixedIn = Some v, sinceVersion = None,
          significant = None, contributors = cs, metrics = None, severity = None,
          impactScore = None\<rparr>)"

definition parseBugItem :: "string \<Rightarrow> string \<Rightarrow> entry" where
  "parseBugItem item v =
     (let (t, d) = extractTitleDescription item;
          cs = extractContributors item;
          sig = (includesStr (toLowerCase item) ''significant''
                 \<or> includesStr (toLowerCase item) ''major'')
      in \<lparr>cve = None, title = t, description = d, fixedIn = Some v, sinceVersion = None,
          significant = Some sig, contributors = cs, metrics = None, severity = None,
          impactScore = None\<rparr>)"

definition parseFeatureItem :: "string \<Rightarrow> string \<Rightarrow> entry" where
  "parseFeatureItem item v =
     (let cs = extractContributors item;
          (t, d) = extractTitleDescription item;
          sig = (includesStr (toLowerCase item) ''significant''
                 \<or> includesStr (toLowerCase item) ''major'')
      in \<lparr>cve = None, title = t, description = d, fixedIn = None, sinceVersion = Some v,
          significant = Some sig, contributors = cs, metrics = None, severity = None,
          impactScore = None\<rparr>)"

definition parsePerformanceItem :: "string \<Rightarrow> string \<Rightarrow> entry" where
  "parsePerformanceItem item v =
     (let cs = extractContributors item;
          (t, d) = extractTitleDescription item;
          sig = (includesStr (toLowerCase item) ''significant''
                 \<or> includesStr (toLowerCase item) ''major'')
      in \<lparr>cve = None, title = t, description = d, fixedIn = None, sinceVersion = Some v,
          significant = Some sig, contributors = cs, metrics = None, severity = None,
          impactScore = None\<rparr>)"

text \<open>
  The \<^verbatim>\<open>summary\<close> object that \<^verbatim>\<open>generateSummary\<close> fills, with the properties its type
  annotation and its literal give it.
\<close>

record summary =
  versionDates :: "string \<rightharpoonup> string"
  bugsList :: "entry list"
  featuresList :: "entry list"
  performanceList :: "entry list"
  securityList :: "entry list"

definition emptySummary :: summary where
  "emptySummary =
     \<lparr>versionDates = Map.empty, bugsList = [], featuresList = [], performanceList = [],
      securityList = []\<rparr>"

text \<open>The body of \<^verbatim>\<open>releaseNotes.forEach\<close>: one release is added to the summary.\<close>

definition summarizeRelease :: "summary \<Rightarrow> processedRelease \<Rightarrow> summary" where
  "summarizeRelease s r =
     (let v = pVersion r;
          s1 = s\<lparr>versionDates := (versionDates s)(v \<mapsto> pReleaseDate r)\<rparr>;
          s2 = s1\<lparr>securityList :=
                 securityList s1 @ map (\<lambda>item. parseSecurityItem item v) (security (pCategories r))\<rparr>;
          s3 = s2\<lparr>featuresList :=
                 featuresList s2 @ map (\<lambda>item. parseFeatureItem item v) (features (pCategories r))\<rparr>;
          s4 = s3\<lparr>performanceList :=
                 performanceList s3
                 @ map (\<lambda>item. parsePerformanceItem item v) (performance (pCategories r))\<rparr>
      in s4\<lparr>bugsList := bugsList s4 @ map (\<lambda>item. parseBugItem item v) (bugs (pCategories r))\<rparr>)"

text \<open>
  The content of \<^verbatim>\<open>release_notes_formatted.json\<close>: a JSON object, that is a finite map from
  property names to values; a value of the summary file is the object of version dates or
  an array of entries. This is what the later commands read back with \<^verbatim>\<open>JSON.parse\<close>.
\<close>

datatype summaryValue = DatesObject "string \<rightharpoonup> string" | EntryArray "entry list"

type_synonym summaryFile = "string \<rightharpoonup> summaryValue"

text \<open>\<^verbatim>\<open>JSON.stringify(summary)\<close>: one property of the file for each property of the object.\<close>

definition stringifySummary :: "summary \<Rightarrow> summaryFile" where
  "stringifySummary s =
     [''versionDates'' \<mapsto> DatesObject (versionDates s),
      ''bugs'' \<mapsto> EntryArray (bugsList s),
      ''features'' \<mapsto> EntryArray (featuresList s),
      ''performance'' \<mapsto> EntryArray (performanceList s),
      ''security'' \<mapsto> EntryArray (securityList s)]"

text \<open>
  \<^verbatim>\<open>generateSummary\<close>, from the content of \<^verbatim>\<open>release_notes.json\<close> to the content of
  \<^verbatim>\<open>release_notes_formatted.json\<close>.
\<close>

definition generateSummary :: "processedRelease list \<Rightarrow> summaryFile" where
  "generateSummary releaseNotes = stringifySummary (foldl summarizeRelease emptySummary releaseNotes)"

section \<open>Enricher: addCVE\<close>

text \<open>What the scraper's commands can throw.\<close>

datatype error =
    TypeError    \<comment> \<open>a property read on \<^verbatim>\<open>undefined\<close>, or a loop over a value that is no array\<close>
  | FetchError   \<comment> \<open>\<^verbatim>\<open>fetchPage\<close> failed, or the response was no JSON\<close>
  | FileError    \<comment> \<open>a file could not be read\<close>

text \<open>
  The answer of the advisory service to one query, as far as \<^verbatim>\<open>addCVE\<close> reads it; an element
  of \<^verbatim>\<open>vulnerabilities\<close> stands for its \<^verbatim>\<open>cve.metrics\<close>. The service is a function from
  the text appended to the query URL to an answer or a failure.
\<close>

record cveData =
  totalResults :: int
  vulnerabilities :: "metrics list option"

type_synonym advisoryService = "string \<Rightarrow> error + cveData"

text \<open>\<^verbatim>\<open>xs[0].p\<close>: the first element, or a \<^verbatim>\<open>TypeError\<close> when the array is empty.\<close>

fun first :: "'a list \<Rightarrow> error + 'a" where
  "first [] = Inl TypeError"
| "first (x # xs) = Inr x"

text \<open>The two conditional chains on the path that has just queried the service.\<close>

definition severityQueried :: "metrics \<Rightarrow> error + string" where
  "severityQueried m =
     (case cvssMetricV30 m of
        Some a \<Rightarrow> map_sum id (\<lambda>e. baseSeverity (cvssData e)) (first a)
      | None \<Rightarrow>
          (case cvssMetricV31 m of
             Some a \<Rightarrow> map_sum id (\<lambda>e. baseSeverity (cvssData e)) (first a)
           | None \<Rightarrow>
               (case cvssMetricV2 m of
                  Some a \<Rightarrow> map_sum id baseSeverityV2 (first a)
                | None \<Rightarrow> Inr ''None'')))"

definition impactScoreQueried :: "metrics \<Rightarrow> error + real" where
  "impactScoreQueried m =
     (case cvssMetricV30 m of
        Some a \<Rightarrow> map_sum id impactScoreV3 (first a)
      | None \<Rightarrow>
          (case cvssMetricV31 m of
             Some a \<Rightarrow> map_sum id impactScoreV3 (first a)
           | None \<Rightarrow>
               (case cvssMetricV2 m of
                  Some a \<Rightarrow> map_sum id impactScoreV2 (first a)
                | None \<Rightarrow> Inr 0)))"

text \<open>The two conditional chains on the path of an entry that already has metrics.\<close>

definition severityStored :: "metrics \<Rightarrow> error + string" where
  "severityStored m =
     (case cvssMetricV30 m of
        Some a \<Rightarrow> map_sum id (\<lambda>e. baseSeverity (cvssData e)) (first a)
      | None \<Rightarrow>
          (case cvssMetricV31 m of
             Some a \<Rightarrow> map_sum id (\<lambda>e. baseSeverity (cvssData e)) (first a)
           | None \<Rightarrow>
               (case cvssMetricV2 m of
                  Some a \<Rightarrow> map_sum id baseSeverityV2 (first a)
                | None \<Rightarrow> Inr ''None'')))"

definition impactScoreStored :: "metrics \<Rightarrow> error + real" where
  "impactScoreStored m =
     (case cvssMetricV30 m of
        Some a \<Rightarrow> map_sum id impactScoreV3 (first a)
      | None \<Rightarrow>
          (case cvssMetricV31 m of
             Some a \<Rightarrow> map_sum id impactScoreV3 (first a)
           | None \<Rightarrow>
               (case cvssMetricV2 m of
                  Some a \<Rightarrow> map_sum id impactScoreV2 (first a)
                | None \<Rightarrow> Inr 0)))"

text \<open>
  The text that \<^verbatim>\<open>CVEAPI + security.cve\<close> appends to the query URL; \<^verbatim>\<open>null\<close> is appended
  as the word \<open>null\<close>.
\<close>

definition cveKey :: "entry \<Rightarrow> string" where
  "cveKey e = (case cve e of None \<Rightarrow> ''null'' | Some c \<Rightarrow> c)"

text \<open>
  The body of the loop over the security entries, up to the write of the file: the queries
  sent to the service, and the entry as the body leaves it or the error that ends the loop.
\<close>

definition enrichEntry :: "advisoryService \<Rightarrow> entry \<Rightarrow> string list \<times> (error + entry)" where
  "enrichEntry lookup e =
     (case metrics e of
        None \<Rightarrow>
          (case lookup (cveKey e) of
             Inl err \<Rightarrow> ([cveKey e], Inl err)
           | Inr answer \<Rightarrow>
               (case vulnerabilities answer of
                  None \<Rightarrow> ([cveKey e], Inr e)
                | Some vs \<Rightarrow>
                    if totalResults answer = 1
                    then (case first vs of
                            Inl err \<Rightarrow> ([cveKey e], Inl err)
                          | Inr m \<Rightarrow>
                              (case severityQueried m of
                                 Inl err \<Rightarrow> ([cveKey e], Inl err)
                               | Inr s \<Rightarrow>
                                   (case impactScoreQueried m of
                                      Inl err \<Rightarrow> ([cveKey e], Inl err)
                                    | Inr i \<Rightarrow>
                                        ([cveKey e],
                                         Inr (e\<lparr>metrics := Some m, severity := Some s,
                                                impactScore := Some i\<rparr>)))))
                    else ([cveKey e], Inr e)))
      | Some m \<Rightarrow>
          (case severityStored m of
             Inl err \<Rightarrow> ([], Inl err)
           | Inr s \<Rightarrow>
               (case impactScoreStored m of
                  Inl err \<Rightarrow> ([], Inl err)
                | Inr i \<Rightarrow> ([], Inr (e\<lparr>severity := Some s, impactScore := Some i\<rparr>)))))"

text \<open>
  The loop. The file is written after every entry, so when an error ends the loop the file
  holds the entries done so far as the loop left them and the others as they were. The
  result is the security array of the file at the end, the queries sent, and the error that
  ended the loop, if any.
\<close>

fun addCVELoop ::
  "advisoryService \<Rightarrow> entry list \<Rightarrow> entry list \<Rightarrow> entry list \<times> string list \<times> error option" where
  "addCVELoop lookup done [] = (done, [], None)"
| "addCVELoop lookup done (e # es) =
     (case enrichEntry lookup e of
        (qs, Inl err) \<Rightarrow> (done @ e # es, qs, Some err)
      | (qs, Inr e') \<Rightarrow>
          (case addCVELoop lookup (done @ [e']) es of
             (file, qs', err) \<Rightarrow> (file, qs @ qs', err)))"

definition addCVE ::
  "advisoryService \<Rightarrow> summaryFile \<Rightarrow> summaryFile \<times> string list \<times> error option" where
  "addCVE lookup file =
     (case file ''security'' of
        Some (EntryArray es) \<Rightarrow>
          (case addCVELoop lookup [] es of
             (es', qs, err) \<Rightarrow> (file(''security'' \<mapsto> EntryArray es'), qs, err))
      | _ \<Rightarrow> (file, [], Some TypeError))"

section \<open>Link Rewriter: updateFormattedLinks\<close>

text \<open>
  The regular expression \<^verbatim>\<open>/\(([^)]+\.html[^)]*)\)/\<close> tried at the start of \<open>s\<close>: an opening
  parenthesis, the text up to the next closing parenthesis (group 1), which must contain
  \<open>.html\<close> after at least one character, and that closing parenthesis. The result is
  group 1 and the input after the match.
\<close>

definition linkMatchAt :: "string \<Rightarrow> (string \<times> string) option" where
  "linkMatchAt s =
     (case s of
        [] \<Rightarrow> None
      | c # r \<Rightarrow>
          (let p1 = takeWhile (\<lambda>x. x \<noteq> CHR '')'') r;
               t = dropWhile (\<lambda>x. x \<noteq> CHR '')'') r
           in if c = CHR ''('' \<and> t \<noteq> [] \<and> p1 \<noteq> [] \<and> includesStr (tl p1) ''.html''
              then Some (p1, tl t) else None))"

lemma linkMatchAt_shorter:
  "linkMatchAt (c # cs) = Some (p1, rest) \<Longrightarrow> length rest < Suc (length cs)"
proof -
  assume "linkMatchAt (c # cs) = Some (p1, rest)"
  then have "rest = tl (dropWhile (\<lambda>x. x \<noteq> CHR '')'') cs)"
    by (simp add: linkMatchAt_def Let_def split: if_splits)
  moreover have "length (dropWhile (\<lambda>x. x \<noteq> CHR '')'') cs) \<le> length cs"
    by (rule length_dropWhile_le)
  ultimately show ?thesis by simp
qed

text \<open>
  \<^verbatim>\<open>text.replace(/\(([^)]+\.html[^)]*)\)/g, f)\<close>: every match, found from the left and
  without overlap, is replaced by what \<open>f\<close> returns for the matched text and group 1.
\<close>

function replaceLinks :: "(string \<Rightarrow> string \<Rightarrow> string) \<Rightarrow> string \<Rightarrow> string" where
  "replaceLinks f [] = []"
| "replaceLinks f (c # cs) =
     (case linkMatchAt (c # cs) of
        Some (p1, rest) \<Rightarrow> f (CHR ''('' # p1 @ '')'') p1 @ replaceLinks f rest
      | None \<Rightarrow> c # replaceLinks f cs)"
  by pat_completeness auto
termination
  by (relation "measure (\<lambda>(f, s). length s)") (auto dest: linkMatchAt_shorter)

definition baseUrlOf :: "string \<Rightarrow> string" where
  "baseUrlOf v = ''https://www.postgresql.org/docs/'' @ hd (splitStr ''.'' v) @ ''/''"

definition updateLinks :: "string \<Rightarrow> string \<Rightarrow> string" where
  "updateLinks text v =
     (let effectiveVersion = (if v \<noteq> [] then v else ''0'');
          baseUrl = baseUrlOf effectiveVersion
      in replaceLinks
           (\<lambda>match p1. if \<not> startsWith p1 ''http'' then ''('' @ baseUrl @ p1 @ '')'' else match)
           text)"

definition killLinks :: "string \<Rightarrow> string" where
  "killLinks text = replaceLinks (\<lambda>match p1. if p1 \<noteq> [] then [] else match) text"

text \<open>
  \<^verbatim>\<open>item.fixedIn || item.sinceVersion || '0'\<close>: an absent property and the empty string are
  both falsy.
\<close>

definition itemVersion :: "entry \<Rightarrow> string" where
  "itemVersion item =
     (case fixedIn item of
        Some v \<Rightarrow> if v \<noteq> [] then v
                  else (case sinceVersion item of Some w \<Rightarrow> if w \<noteq> [] then w else ''0''
                        | None \<Rightarrow> ''0'')
      | None \<Rightarrow> (case sinceVersion item of Some w \<Rightarrow> if w \<noteq> [] then w else ''0''
                 | None \<Rightarrow> ''0''))"

text \<open>The function mapped over the entries of a category.\<close>

definition updateItem :: "entry \<Rightarrow> entry" where
  "updateItem item =
     (let v = itemVersion item
      in item\<lparr>title := (if title item \<noteq> [] then killLinks (title item) else title item),
              description := (if description item \<noteq> []
                              then updateLinks (description item) v
                              else description item)\<rparr>)"

text \<open>The body of \<^verbatim>\<open>categories.forEach\<close>, and the whole command on the content of the file.\<close>

definition updateCategory :: "summaryFile \<Rightarrow> string \<Rightarrow> summaryFile" where
  "updateCategory json category =
     (case json category of
        Some (EntryArray items) \<Rightarrow> json(category \<mapsto> EntryArray (map updateItem items))
      | _ \<Rightarrow> json)"

definition updateFormattedLinks :: "summaryFile \<Rightarrow> summaryFile" where
  "updateFormattedLinks json =
     foldl updateCategory json [''bugs'', ''features'', ''performance'', ''security'']"

section \<open>Item Extractor: parseReleaseNotes\<close>

abbreviation DQ :: char where
  "DQ \<equiv> CHR 0x22"

text \<open>
  The regular expression \<^verbatim>\<open>/href="([^"]+)"/\<close> tried at the start of \<open>s\<close>; the result is
  group 1 and the input after the match.
\<close>

definition hrefMatchAt :: "string \<Rightarrow> (string \<times> string) option" where
  "hrefMatchAt s =
     (let r = drop 6 s;
          p1 = takeWhile (\<lambda>x. x \<noteq> DQ) r;
          t = dropWhile (\<lambda>x. x \<noteq> DQ) r
      in if startsWith s (''href='' @ [DQ]) \<and> p1 \<noteq> [] \<and> t \<noteq> []
         then Some (p1, tl t) else None)"

lemma hrefMatchAt_shorter:
  "hrefMatchAt (c # cs) = Some (p1, rest) \<Longrightarrow> length rest < Suc (length cs)"
proof -
  assume "hrefMatchAt (c # cs) = Some (p1, rest)"
  then have "rest = tl (dropWhile (\<lambda>x. x \<noteq> DQ) (drop 5 cs))"
    by (simp add: hrefMatchAt_def Let_def split: if_splits)
  moreover have "length (dropWhile (\<lambda>x. x \<noteq> DQ) (drop 5 cs)) \<le> length (drop 5 cs)"
    by (rule length_dropWhile_le)
  ultimately show ?thesis by simp
qed

text \<open>The local function \<^verbatim>\<open>processText\<close>: relative link targets are made absolute.\<close>

function processText :: "string \<Rightarrow> string \<Rightarrow> string" where
  "processText [] baseUrl = []"
| "processText (c # cs) baseUrl =
     (case hrefMatchAt (c # cs) of
        Some (p1, rest) \<Rightarrow>
          (if \<not> startsWith p1 ''http'' \<and> \<not> startsWith p1 ''#''
           then ''href='' @ [DQ] @ baseUrl @ p1 @ [DQ]
           else ''href='' @ [DQ] @ p1 @ [DQ])
          @ processText rest baseUrl
      | None \<Rightarrow> c # processText cs baseUrl)"
  by pat_completeness auto
termination
  by (relation "measure (\<lambda>(s, b). length s)") (auto dest: hrefMatchAt_shorter)

text \<open>
  \<^verbatim>\<open>path.extname\<close> on a directory entry, a name without a slash: the text from the last dot
  on, and the empty string when the name has no dot, when its only dot is its first
  character, or when the name is \<open>..\<close>.
\<close>

definition extname :: "string \<Rightarrow> string" where
  "extname f =
     (let ext = CHR ''.'' # rev (takeWhile (\<lambda>x. x \<noteq> CHR ''.'') (rev f))
      in if CHR ''.'' \<notin> set f \<or> length ext = length f \<or> f = ''..'' then [] else ext)"

text \<open>
  A cached document after \<^verbatim>\<open>cheerio.load\<close> and the removal of the anchors whose text equals
  the marker string the scraper compares with, given by the results of the three queries
  the scraper makes: the text of
  the first heading under \<^verbatim>\<open>#release-notes\<close>, the text of the paragraphs containing
  \<open>Release date:\<close>, and the inner markup of every list item. A query without a match gives
  the empty text or no items.
\<close>

record document =
  headingText :: string
  dateText :: string
  listItems :: "string list"

text \<open>
  The work on one file. \<open>translate\<close> stands for \<^verbatim>\<open>NodeHtmlMarkdown.translate\<close>. The second
  piece of the date text is \<^verbatim>\<open>undefined\<close> when the text has no colon, and trimming it
  throws.
\<close>

definition parseDocument :: "(string \<Rightarrow> string) \<Rightarrow> document \<Rightarrow> error + release" where
  "parseDocument translate doc =
     (let v = last (splitStr '' '' (trim (headingText doc)));
          baseUrl = ''https://www.postgresql.org/docs/'' @ hd (splitStr ''.'' v) @ ''/''
      in case splitStr '':'' (dateText doc) of
           _ # d # _ \<Rightarrow>
             Inr \<lparr>version = v, releaseDate = trim d,
                  changes = map (\<lambda>h. translate (processText (trim h) baseUrl)) (listItems doc)\<rparr>
         | _ \<Rightarrow> Inl TypeError)"

text \<open>
  \<^verbatim>\<open>parseReleaseNotes\<close>: the loop over \<open>files\<close>, the names that \<^verbatim>\<open>fs.readdir\<close> returned, in
  the order in which it returned them. \<open>cache\<close> maps a file name to the document in the
  file. An error ends the function and nothing is returned.
\<close>

fun parseReleaseNotes ::
  "(string \<Rightarrow> string) \<Rightarrow> (string \<rightharpoonup> document) \<Rightarrow> string list \<Rightarrow> error + release list" where
  "parseReleaseNotes translate cache [] = Inr []"
| "parseReleaseNotes translate cache (file # files) =
     (if extname file = ''.html'' \<and> file \<noteq> ''index.html''
      then (case cache file of
              None \<Rightarrow> Inl FileError
            | Some doc \<Rightarrow>
                (case parseDocument translate doc of
                   Inl err \<Rightarrow> Inl err
                 | Inr r \<Rightarrow>
                     (case parseReleaseNotes translate cache files of
                        Inl err \<Rightarrow> Inl err
                      | Inr rs \<Rightarrow> Inr (r # rs))))
      else parseReleaseNotes translate cache files)"

section \<open>Notions used to state the properties\<close>

text \<open>
  A group that \<^const>\<open>extractContributors\<close> can take for the attribution: a parenthesized,
  non-empty text \<open>g\<close> without parentheses inside, after a character other than \<open>]\<close>, and
  followed by a line feed or by the end of the item.
\<close>

definition candidateGroup :: "string \<Rightarrow> string \<Rightarrow> bool" where
  "candidateGroup item g =
     (\<exists>pre c post. item = pre @ c # CHR ''('' # g @ CHR '')'' # post \<and> c \<noteq> CHR '']''
        \<and> g \<noteq> [] \<and> (\<forall>x\<in>set g. \<not> isParen x) \<and> (post = [] \<or> hd post = LF))"

text \<open>A text that looks like a link or a CVE reference.\<close>

definition looksLikeLink :: "string \<Rightarrow> bool" where
  "looksLikeLink m = (includesStr m ''http'' \<or> includesStr m ''www.'' \<or> includesStr m ''CVE-'')"

text \<open>
  Title and description as the specification words them: the title is the text up to the
  first line break, with a trailing parenthesized group stripped, and the description is
  everything after that break, trimmed; without a line break the whole item, so stripped,
  is the title and the description is empty.
\<close>

definition titleDescriptionSpec :: "string \<Rightarrow> string \<times> string" where
  "titleDescriptionSpec item =
     (if LF \<in> set item
      then (removeTrailingGroup (takeWhile (\<lambda>c. c \<noteq> LF) item),
            trim (tl (dropWhile (\<lambda>c. c \<noteq> LF) item)))
      else (removeTrailingGroup item, []))"

text \<open>
  Severity and impact score as the specification words them: the data of schema 3.0 if
  present, else that of schema 3.1, else that of schema 2, else the defaults.
\<close>

definition metricPrecedence :: "metrics \<Rightarrow> string \<times> real" where
  "metricPrecedence m =
     (case cvssMetricV30 m of
        Some (e # _) \<Rightarrow> (baseSeverity (cvssData e), impactScoreV3 e)
      | _ \<Rightarrow>
          (case cvssMetricV31 m of
             Some (e # _) \<Rightarrow> (baseSeverity (cvssData e), impactScoreV3 e)
           | _ \<Rightarrow>
               (case cvssMetricV2 m of
                  Some (e # _) \<Rightarrow> (baseSeverityV2 e, impactScoreV2 e)
                | _ \<Rightarrow> (''None'', 0))))"

text \<open>Metrics in which no schema version is present as an empty array.\<close>

definition noEmptyArray :: "metrics \<Rightarrow> bool" where
  "noEmptyArray m =
     (cvssMetricV30 m \<noteq> Some [] \<and> cvssMetricV31 m \<noteq> Some [] \<and> cvssMetricV2 m \<noteq> Some [])"

text \<open>
  An entry whose severity and impact score are the ones its metrics give, if it has
  metrics.
\<close>

definition settled :: "entry \<Rightarrow> bool" where
  "settled e =
     (case metrics e of
        None \<Rightarrow> True
      | Some m \<Rightarrow>
          (case (severityStored m, impactScoreStored m) of
             (Inr s, Inr i) \<Rightarrow> severity e = Some s \<and> impactScore e = Some i
           | _ \<Rightarrow> False))"

text \<open>An advisory service that knows no CVE: every query reports no result.\<close>

definition noMatchService :: advisoryService where
  "noMatchService q = Inr \<lparr>totalResults = 0, vulnerabilities = Some []\<rparr>"

text \<open>
  A summary file in which no entry of an array has a closing parenthesis in its version;
  a dotted numeric version has none.
\<close>

definition versionsPlain :: "summaryFile \<Rightarrow> bool" where
  "versionsPlain json =
     (\<forall>k items. json k = Some (EntryArray items) \<longrightarrow>
        (\<forall>item\<in>set items. CHR '')'' \<notin> set (itemVersion item)))"

text \<open>The release files of a listing: the names that \<^const>\<open>parseReleaseNotes\<close> reads.\<close>

definition isReleaseFile :: "string \<Rightarrow> bool" where
  "isReleaseFile file = (extname file = ''.html'' \<and> file \<noteq> ''index.html'')"

text \<open>An advisory service that answers every query with the single result \<open>m\<close>.\<close>

definition singleResultService :: "metrics \<Rightarrow> advisoryService" where
  "singleResultService m q = Inr \<lparr>totalResults = 1, vulnerabilities = Some [m]\<rparr>"

text \<open>The security array of a summary file; empty when the file has none.\<close>

definition securityOf :: "summaryFile \<Rightarrow> entry list" where
  "securityOf file = (case file ''security'' of Some (EntryArray es) \<Rightarrow> es | _ \<Rightarrow> [])"

text \<open>What \<^const>\<open>parseReleaseNotes\<close> makes of one file of the cache.\<close>

definition parseFile :: "(string \<Rightarrow> string) \<Rightarrow> (string \<rightharpoonup> document) \<Rightarrow> string \<Rightarrow> error + release" where
  "parseFile translate cache file =
     (case cache file of None \<Rightarrow> Inl FileError | Some doc \<Rightarrow> parseDocument translate doc)"

section \<open>Classifier: proofs\<close>

lemma categorizeChange_push:
  "categorizeChange is_major cs change = push (categoryOf is_major change) change cs"
  by (simp add: categorizeChange_def categoryOf_def split: option.split)

lemma foldl_categorizeChange:
  "foldl (categorizeChange m) cs xs =
     \<lparr>performance = performance cs @ filter (\<lambda>c. categoryOf m c = Performance) xs,
      security = security cs @ filter (\<lambda>c. categoryOf m c = Security) xs,
      features = features cs @ filter (\<lambda>c. categoryOf m c = Features) xs,
      bugs = bugs cs @ filter (\<lambda>c. categoryOf m c = Bugs) xs\<rparr>"
proof (induction xs arbitrary: cs)
  case Nil
  show ?case by simp
next
  case (Cons x xs)
  have "foldl (categorizeChange m) cs (x # xs)
      = foldl (categorizeChange m) (push (categoryOf m x) x cs) xs"
    by (simp only: foldl_Cons categorizeChange_push)
  then show ?case
    by (cases "categoryOf m x") (simp_all add: Cons.IH)
qed

lemma categorizeChanges_filter:
  "categorizeChanges xs m =
     \<lparr>performance = filter (\<lambda>c. categoryOf m c = Performance) xs,
      security = filter (\<lambda>c. categoryOf m c = Security) xs,
      features = filter (\<lambda>c. categoryOf m c = Features) xs,
      bugs = filter (\<lambda>c. categoryOf m c = Bugs) xs\<rparr>"
  by (simp add: categorizeChanges_def foldl_categorizeChange emptyCategories_def)

lemma mset_by_category:
  "mset (filter (\<lambda>c. f c = Security) xs) + mset (filter (\<lambda>c. f c = Performance) xs)
     + mset (filter (\<lambda>c. f c = Features) xs) + mset (filter (\<lambda>c. f c = Bugs) xs) = mset xs"
proof (induction xs)
  case Nil
  show ?case by simp
next
  case (Cons x xs)
  then show ?case by (cases "f x") simp_all
qed

text \<open>
  C1. Classification is total and exhaustive: for every list of change items and either
  value of the major-release flag, the four buckets together hold exactly the input items,
  each once (as multisets), so their sizes add up to the number of input items; nothing is
  dropped and nothing is duplicated.
\<close>

theorem classification_total:
  "length (security (categorizeChanges items is_major))
     + length (performance (categorizeChanges items is_major))
     + length (features (categorizeChanges items is_major))
     + length (bugs (categorizeChanges items is_major)) = length items
   \<and> mset (security (categorizeChanges items is_major))
     + mset (performance (categorizeChanges items is_major))
     + mset (features (categorizeChanges items is_major))
     + mset (bugs (categorizeChanges items is_major)) = mset items"
proof -
  let ?f = "categoryOf is_major"
  have m: "mset (filter (\<lambda>c. ?f c = Security) items)
      + mset (filter (\<lambda>c. ?f c = Performance) items)
      + mset (filter (\<lambda>c. ?f c = Features) items)
      + mset (filter (\<lambda>c. ?f c = Bugs) items) = mset items"
    by (rule mset_by_category)
  have "size (mset (filter (\<lambda>c. ?f c = Security) items)
      + mset (filter (\<lambda>c. ?f c = Performance) items)
      + mset (filter (\<lambda>c. ?f c = Features) items)
      + mset (filter (\<lambda>c. ?f c = Bugs) items)) = size (mset items)"
    by (simp only: m)
  then have l: "length (filter (\<lambda>c. ?f c = Security) items)
      + length (filter (\<lambda>c. ?f c = Performance) items)
      + length (filter (\<lambda>c. ?f c = Features) items)
      + length (filter (\<lambda>c. ?f c = Bugs) items) = length items"
    by (simp only: size_union size_mset)
  show ?thesis
    using m l by (simp add: categorizeChanges_filter)
qed


lemma categoryOf_minor:
  "categoryOf False change = (if matchesWords securityWords change then Security else Bugs)"
  by (simp add: categoryOf_def keywordEntries_def matchesWords_def)




text \<open>
  C4. Major-release gating: for a release whose version string does not end in \<open>.0\<close> the
  performance and features tests are skipped for every change, so the performance and
  features buckets are empty, the security bucket holds the changes containing \<open>cve\<close>
  (case-insensitively) and every other change is in bugs.
\<close>

theorem major_release_gating:
  "\<not> endsWith (version r) ''.0'' \<Longrightarrow>
     performance (pCategories (processRelease r)) = []
     \<and> features (pCategories (processRelease r)) = []
     \<and> security (pCategories (processRelease r))
         = filter (matchesWords securityWords) (changes r)
     \<and> bugs (pCategories (processRelease r))
         = filter (\<lambda>c. \<not> matchesWords securityWords c) (changes r)"
  by (simp add: processRelease_def categorizeChanges_filter categoryOf_minor)

theorem major_release_gating_witness:
  "\<not> endsWith (version \<lparr>version = ''16.1'', releaseDate = ''2023-11-09'',
                         changes = [''Add a new feature for indexes'']\<rparr>) ''.0''
   \<and> features (pCategories (processRelease \<lparr>version = ''16.1'', releaseDate = ''2023-11-09'',
                         changes = [''Add a new feature for indexes'']\<rparr>)) = []
   \<and> bugs (pCategories (processRelease \<lparr>version = ''16.1'', releaseDate = ''2023-11-09'',
                         changes = [''Add a new feature for indexes'']\<rparr>))
       = [''Add a new feature for indexes'']"
proof -
  let ?r = "\<lparr>version = ''16.1'', releaseDate = ''2023-11-09'',
             changes = [''Add a new feature for indexes'']\<rparr>"
  have h: "\<not> endsWith (version ?r) ''.0''"
    by code_simp
  have b: "filter (\<lambda>c. \<not> matchesWords securityWords c) (changes ?r)
      = [''Add a new feature for indexes'']"
    by code_simp
  show ?thesis
    using h major_release_gating [OF h] by (simp only: b simp_thms)
qed
section \<open>Parser: proofs\<close>

lemma startsWith_iff: "startsWith s w = (\<exists>b. s = w @ b)"
proof
  assume "startsWith s w"
  then have "s = w @ drop (length w) s"
    by (metis startsWith_def append_take_drop_id)
  then show "\<exists>b. s = w @ b" ..
next
  assume "\<exists>b. s = w @ b"
  then show "startsWith s w" by (auto simp: startsWith_def)
qed

lemma includesStr_iff: "includesStr s w = (\<exists>a b. s = a @ w @ b)"
proof (induction s)
  case Nil
  show ?case by auto
next
  case (Cons c cs)
  show ?case
  proof
    assume "includesStr (c # cs) w"
    then consider "startsWith (c # cs) w" | "includesStr cs w" by auto
    then show "\<exists>a b. c # cs = a @ w @ b"
    proof cases
      case 1
      then obtain b where "c # cs = w @ b" by (auto simp: startsWith_iff)
      then have "c # cs = [] @ w @ b" by simp
      then show ?thesis by blast
    next
      case 2
      then obtain a b where "cs = a @ w @ b" using Cons.IH by auto
      then have "c # cs = (c # a) @ w @ b" by simp
      then show ?thesis by blast
    qed
  next
    assume "\<exists>a b. c # cs = a @ w @ b"
    then obtain a b where ab: "c # cs = a @ w @ b" by auto
    show "includesStr (c # cs) w"
    proof (cases a)
      case Nil
      with ab have "startsWith (c # cs) w" by (auto simp: startsWith_iff)
      then show ?thesis by simp
    next
      case (Cons x a')
      with ab have "cs = a' @ w @ b" by simp
      then have "includesStr cs w" using Cons.IH by auto
      then show ?thesis by simp
    qed
  qed
qed

lemma includesStr_within: "includesStr g w \<Longrightarrow> includesStr (a @ g @ b) w"
proof -
  assume "includesStr g w"
  then obtain x y where "g = x @ w @ y" by (auto simp: includesStr_iff)
  then have "a @ g @ b = (a @ x) @ w @ (y @ b)" by simp
  then show ?thesis unfolding includesStr_iff by blast
qed

lemma contributorsMatchAt_Some:
  assumes "contributorsMatchAt s = Some ms"
  shows "\<exists>c g post. s = c # CHR ''('' # g @ CHR '')'' # post \<and> c \<noteq> CHR '']'' \<and> g \<noteq> []
           \<and> (\<forall>x\<in>set g. \<not> isParen x) \<and> (post = [] \<or> hd post = LF)
           \<and> ms = [c # CHR ''('' # g @ CHR '')'' # take 1 post, g]"
proof -
  from assms obtain c p r where s: "s = c # p # r"
    by (auto simp: contributorsMatchAt_def split: list.splits)
  define g where "g = takeWhile (\<lambda>x. \<not> isParen x) r"
  define t where "t = dropWhile (\<lambda>x. \<not> isParen x) r"
  have r: "r = g @ t" by (simp add: g_def t_def)
  from assms s have c: "c \<noteq> CHR '']''" "p = CHR ''(''" "g \<noteq> []" "t \<noteq> []" "hd t = CHR '')''"
    by (auto simp: contributorsMatchAt_def Let_def g_def t_def split: if_splits)
  then obtain post where t: "t = CHR '')'' # post" by (cases t) auto
  have np: "\<forall>x\<in>set g. \<not> isParen x"
    unfolding g_def by (auto dest: set_takeWhileD)
  from assms s c t
  have "(post = [] \<or> hd post = LF) \<and> ms = [c # CHR ''('' # g @ CHR '')'' # take 1 post, g]"
    by (cases post)
      (auto simp: contributorsMatchAt_def Let_def g_def[symmetric] t_def[symmetric]
        split: if_splits)
  with s r t c np show ?thesis by auto
qed

lemma contributorsMatchAt_complete:
  assumes "c \<noteq> CHR '']''" "g \<noteq> []" "\<forall>x\<in>set g. \<not> isParen x" "post = [] \<or> hd post = LF"
  shows "contributorsMatchAt (c # CHR ''('' # g @ CHR '')'' # post)
           = Some [c # CHR ''('' # g @ CHR '')'' # take 1 post, g]"
proof -
  have tw: "takeWhile (\<lambda>x. \<not> isParen x) (g @ CHR '')'' # post) = g"
    using assms(3) by (simp add: takeWhile_append2 isParen_def)
  have dw: "dropWhile (\<lambda>x. \<not> isParen x) (g @ CHR '')'' # post) = CHR '')'' # post"
    using assms(3) by (simp add: dropWhile_append2 isParen_def)
  have "contributorsMatchAt (c # CHR ''('' # g @ CHR '')'' # post)
      = (if post = [] then Some [c # CHR ''('' # g @ '')'', g]
         else if hd post = LF then Some [c # CHR ''('' # g @ [CHR '')'', LF], g]
         else None)"
    unfolding contributorsMatchAt_def list.case Let_def tw dw using assms(1,2) by simp
  with assms(4) show ?thesis
    by (cases post) auto
qed

lemma candidateGroupI:
  "item = pre @ c # CHR ''('' # g @ CHR '')'' # post \<Longrightarrow> c \<noteq> CHR '']'' \<Longrightarrow> g \<noteq> [] \<Longrightarrow>
     \<forall>x\<in>set g. \<not> isParen x \<Longrightarrow> post = [] \<or> hd post = LF \<Longrightarrow> candidateGroup item g"
  unfolding candidateGroup_def by blast

lemma contributorsMatch_Some:
  "contributorsMatch item = Some ms \<Longrightarrow>
     \<exists>g whole. candidateGroup item g \<and> includesStr whole g \<and> ms = [whole, g]"
proof (induction item)
  case Nil
  then show ?case by simp
next
  case (Cons a item)
  show ?case
  proof (cases "contributorsMatchAt (a # item)")
    case None
    with Cons.prems have "contributorsMatch item = Some ms" by simp
    then obtain g whole where g: "candidateGroup item g" "includesStr whole g" "ms = [whole, g]"
      using Cons.IH by blast
    from g(1) obtain pre c post where d: "item = pre @ c # CHR ''('' # g @ CHR '')'' # post"
      "c \<noteq> CHR '']''" "g \<noteq> []" "\<forall>x\<in>set g. \<not> isParen x" "post = [] \<or> hd post = LF"
      unfolding candidateGroup_def by blast
    from d(1) have "a # item = (a # pre) @ c # CHR ''('' # g @ CHR '')'' # post"
      by simp
    then have "candidateGroup (a # item) g"
      using d(2-5) by (rule candidateGroupI)
    with g show ?thesis by blast
  next
    case (Some m)
    with Cons.prems have ms: "ms = m" by simp
    from contributorsMatchAt_Some [OF Some] obtain c g post where
      d: "a # item = c # CHR ''('' # g @ CHR '')'' # post" "c \<noteq> CHR '']''" "g \<noteq> []"
         "\<forall>x\<in>set g. \<not> isParen x" "post = [] \<or> hd post = LF"
         "m = [c # CHR ''('' # g @ CHR '')'' # take 1 post, g]"
      by blast
    from d(1) have "a # item = [] @ c # CHR ''('' # g @ CHR '')'' # post"
      by simp
    then have cg: "candidateGroup (a # item) g"
      using d(2-5) by (rule candidateGroupI)
    have "c # CHR ''('' # g @ CHR '')'' # take 1 post
        = [c, CHR ''(''] @ g @ (CHR '')'' # take 1 post)"
      by simp
    then have "includesStr (c # CHR ''('' # g @ CHR '')'' # take 1 post) g"
      unfolding includesStr_iff by blast
    with cg d(6) ms show ?thesis by blast
  qed
qed

lemma contributorsMatch_complete:
  "candidateGroup item g \<Longrightarrow> contributorsMatch item \<noteq> None"
proof -
  assume "candidateGroup item g"
  then obtain pre c post where d: "item = pre @ c # CHR ''('' # g @ CHR '')'' # post"
      "c \<noteq> CHR '']''" "g \<noteq> []" "\<forall>x\<in>set g. \<not> isParen x" "post = [] \<or> hd post = LF"
    unfolding candidateGroup_def by blast
  have "contributorsMatch (pre @ c # CHR ''('' # g @ CHR '')'' # post) \<noteq> None"
  proof (induction pre)
    case Nil
    show ?case using contributorsMatchAt_complete [OF d(2-5)] by simp
  next
    case (Cons a pre)
    then show ?case by (simp split: option.split)
  qed
  with d(1) show ?thesis by simp
qed

lemma contributorsLoop_pair:
  assumes "includesStr whole g"
  shows "contributorsLoop (rev [whole, g])
           = (if looksLikeLink g then [] else splitStr '', '' (trim g))"
proof -
  from assms obtain a b where w: "whole = a @ g @ b" by (auto simp: includesStr_iff)
  have "looksLikeLink g \<Longrightarrow> looksLikeLink whole"
    unfolding looksLikeLink_def w by (auto intro: includesStr_within)
  then show ?thesis
    by (auto simp: looksLikeLink_def)
qed

lemma extractContributors_cases:
  "extractContributors item = [] \<or>
   (\<exists>g. candidateGroup item g \<and> \<not> looksLikeLink g
        \<and> extractContributors item = splitStr '', '' (trim g))"
proof (cases "contributorsMatch item")
  case None
  then show ?thesis by (simp add: extractContributors_def)
next
  case (Some ms)
  from contributorsMatch_Some [OF Some] obtain g whole where
    g: "candidateGroup item g" "includesStr whole g" "ms = [whole, g]" by blast
  have "extractContributors item = (if looksLikeLink g then [] else splitStr '', '' (trim g))"
    using Some g(3) contributorsLoop_pair [OF g(2)] by (simp add: extractContributors_def)
  with g(1) show ?thesis by auto
qed

lemma extractContributors_single:
  assumes "candidateGroup item g" "\<forall>g'. candidateGroup item g' \<longrightarrow> g' = g"
  shows "extractContributors item = (if looksLikeLink g then [] else splitStr '', '' (trim g))"
proof -
  from contributorsMatch_complete [OF assms(1)] obtain ms where
    ms: "contributorsMatch item = Some ms" by auto
  from contributorsMatch_Some [OF ms] obtain g' whole where
    g: "candidateGroup item g'" "includesStr whole g'" "ms = [whole, g']" by blast
  with assms(2) have "g' = g" by blast
  with ms g(3) contributorsLoop_pair [OF g(2)] show ?thesis
    by (simp add: extractContributors_def)
qed

lemma candidateGroup_has_paren: "candidateGroup item g \<Longrightarrow> CHR ''('' \<in> set item"
  unfolding candidateGroup_def by auto

lemma candidateGroup_one_paren:
  assumes "candidateGroup item g" "length (filter (\<lambda>x. x = CHR ''('') item) = 1"
  shows "g = takeWhile (\<lambda>x. x \<noteq> CHR '')'') (tl (dropWhile (\<lambda>x. x \<noteq> CHR ''('') item))"
proof -
  from assms(1) obtain pre c post where d: "item = pre @ c # CHR ''('' # g @ CHR '')'' # post"
      "\<forall>x\<in>set g. \<not> isParen x"
    unfolding candidateGroup_def by blast
  from assms(2) d(1) have "filter (\<lambda>x. x = CHR ''('') (pre @ [c]) = []"
    by (auto split: if_splits)
  then have n: "\<forall>x\<in>set (pre @ [c]). x \<noteq> CHR ''(''"
    by (simp only: filter_empty_conv)
  have "item = (pre @ [c]) @ CHR ''('' # g @ CHR '')'' # post"
    using d(1) by simp
  then have "dropWhile (\<lambda>x. x \<noteq> CHR ''('') item = CHR ''('' # g @ CHR '')'' # post"
    using n by (simp only: dropWhile_append2) simp
  moreover have "takeWhile (\<lambda>x. x \<noteq> CHR '')'') (g @ CHR '')'' # post) = g"
    using d(2) by (simp add: takeWhile_append2 isParen_def)
  ultimately show ?thesis by simp
qed

text \<open>
  C5, as the code has it. The result of contributor extraction is empty, or it is the
  content, trimmed and split at every comma followed by a space, of a parenthesized group
  of the item that has no parentheses inside, follows a character other than \<open>]\<close>, stands
  before a line break or at the end of the item, and contains none of \<open>http\<close>, \<open>www.\<close> and
  \<open>CVE-\<close>. It is empty when the item has no such parenthesized group at all. When the item
  has exactly one parenthesized group of that shape, the result is empty if the group looks
  like a link or CVE reference and its split content otherwise. The names are kept in order
  and duplicates are kept. The item \<open>Fix bug in index (Alice, Bob)\<close> yields Alice and Bob,
  and \<open>See https://example.com/foo (readme)\<close> yields \<open>readme\<close>.
\<close>

theorem contributors_extraction:
  "(extractContributors item = [] \<or>
      (\<exists>g. candidateGroup item g \<and> \<not> looksLikeLink g
           \<and> extractContributors item = splitStr '', '' (trim g)))
   \<and> ((\<forall>g. \<not> candidateGroup item g) \<longrightarrow> extractContributors item = [])
   \<and> (\<forall>g. candidateGroup item g \<and> (\<forall>g'. candidateGroup item g' \<longrightarrow> g' = g) \<longrightarrow>
          extractContributors item = (if looksLikeLink g then [] else splitStr '', '' (trim g)))
   \<and> extractContributors ''Fix bug in index (Alice, Bob)'' = [''Alice'', ''Bob'']
   \<and> extractContributors ''Fix (Alice, Alice)'' = [''Alice'', ''Alice'']
   \<and> extractContributors ''See https://example.com/foo (readme)'' = [''readme'']"
proof -
  have 1: "extractContributors item = [] \<or>
      (\<exists>g. candidateGroup item g \<and> \<not> looksLikeLink g
           \<and> extractContributors item = splitStr '', '' (trim g))"
    by (rule extractContributors_cases)
  then have 2: "(\<forall>g. \<not> candidateGroup item g) \<longrightarrow> extractContributors item = []"
    by blast
  have 3: "\<forall>g. candidateGroup item g \<and> (\<forall>g'. candidateGroup item g' \<longrightarrow> g' = g) \<longrightarrow>
          extractContributors item = (if looksLikeLink g then [] else splitStr '', '' (trim g))"
    using extractContributors_single by blast
  have 4: "extractContributors ''Fix bug in index (Alice, Bob)'' = [''Alice'', ''Bob'']"
    by code_simp
  have 5: "extractContributors ''Fix (Alice, Alice)'' = [''Alice'', ''Alice'']"
    by code_simp
  have 6: "extractContributors ''See https://example.com/foo (readme)'' = [''readme'']"
    by code_simp
  from 1 2 3 4 5 6 show ?thesis by blast
qed

theorem contributors_extraction_witness:
  "extractContributors ''Fix crash in parser'' = []
   \<and> candidateGroup ''Fix crash (Carol, Dave)'' ''Carol, Dave''
   \<and> extractContributors ''Fix crash (Carol, Dave)'' = [''Carol'', ''Dave'']"
proof -
  have n: "\<forall>g. \<not> candidateGroup ''Fix crash in parser'' g"
    by (auto dest: candidateGroup_has_paren)
  have "''Fix crash (Carol, Dave)'' = ''Fix crash'' @ CHR '' '' # CHR ''('' # ''Carol, Dave'' @ CHR '')'' # []"
    by simp
  then have c: "candidateGroup ''Fix crash (Carol, Dave)'' ''Carol, Dave''"
    by (rule candidateGroupI) (simp_all add: isParen_def)
  have u: "\<forall>g'. candidateGroup ''Fix crash (Carol, Dave)'' g' \<longrightarrow> g' = ''Carol, Dave''"
    by (auto dest!: candidateGroup_one_paren)
  have l: "\<not> looksLikeLink ''Carol, Dave''"
    by code_simp
  have s: "splitStr '', '' (trim ''Carol, Dave'') = [''Carol'', ''Dave'']"
    by code_simp
  from contributors_extraction [of "''Fix crash in parser''"] n
  have e1: "extractContributors ''Fix crash in parser'' = []"
    by blast
  from contributors_extraction [of "''Fix crash (Carol, Dave)''"] c u
  have "extractContributors ''Fix crash (Carol, Dave)''
      = (if looksLikeLink ''Carol, Dave'' then [] else splitStr '', '' (trim ''Carol, Dave''))"
    by blast
  with l s have e2: "extractContributors ''Fix crash (Carol, Dave)'' = [''Carol'', ''Dave'']"
    by simp
  from e1 c e2 show ?thesis by blast
qed

text \<open>
  The claim C5 as written fails on its own second example: for the item
  \<open>See https://example.com/foo (readme)\<close> the extraction returns \<open>readme\<close> and not the empty
  sequence, because the only parenthesized group, \<open>(readme)\<close>, contains no link. The result
  need not be a sequence of distinct names either.
\<close>

theorem contributors_extraction_counterexample:
  "extractContributors ''See https://example.com/foo (readme)'' \<noteq> []
   \<and> \<not> distinct (extractContributors ''Fix (Alice, Alice)'')"
  by code_simp

lemma indexOfLF_pos: "(indexOfLF item > 0) = (LF \<in> set item \<and> hd item \<noteq> LF)"
proof (cases "LF \<in> set item")
  case False
  then show ?thesis by (simp add: indexOfLF_def)
next
  case True
  then have "item \<noteq> []" by auto
  then have "(takeWhile (\<lambda>c. c \<noteq> LF) item \<noteq> []) = (hd item \<noteq> LF)"
    by (simp add: takeWhile_eq_Nil_iff)
  with True show ?thesis by (simp add: indexOfLF_def)
qed

lemma take_indexOfLF:
  "LF \<in> set item \<Longrightarrow> take (nat (indexOfLF item)) item = takeWhile (\<lambda>c. c \<noteq> LF) item"
  by (simp add: indexOfLF_def takeWhile_eq_take [symmetric])

lemma drop_indexOfLF:
  "LF \<in> set item \<Longrightarrow>
     drop (nat (indexOfLF item + 1)) item = tl (dropWhile (\<lambda>c. c \<noteq> LF) item)"
proof -
  assume "LF \<in> set item"
  then have "nat (indexOfLF item + 1) = Suc (length (takeWhile (\<lambda>c. c \<noteq> LF) item))"
    by (simp add: indexOfLF_def)
  moreover have "drop (Suc (length (takeWhile (\<lambda>c. c \<noteq> LF) item))) item
      = tl (drop (length (takeWhile (\<lambda>c. c \<noteq> LF) item)) item)"
    by (simp add: drop_Suc tl_drop)
  moreover have "drop (length (takeWhile (\<lambda>c. c \<noteq> LF) item)) item
      = dropWhile (\<lambda>c. c \<noteq> LF) item"
    by (rule dropWhile_eq_drop [symmetric])
  ultimately show ?thesis
    by (simp only:)
qed

lemma extractTitleDescription_whole:
  "LF \<notin> set item \<or> hd item = LF \<Longrightarrow>
     extractTitleDescription item = (removeTrailingGroup item, [])"
  using indexOfLF_pos [of item] by (auto simp: extractTitleDescription_def Let_def)

lemma extractTitleDescription_split:
  "LF \<in> set item \<Longrightarrow> hd item \<noteq> LF \<Longrightarrow>
     extractTitleDescription item
       = (removeTrailingGroup (trim (takeWhile (\<lambda>c. c \<noteq> LF) item)),
          trim (tl (dropWhile (\<lambda>c. c \<noteq> LF) item)))"
  using indexOfLF_pos [of item]
  by (simp add: extractTitleDescription_def Let_def take_indexOfLF drop_indexOfLF)

lemma removeTrailingGroup_strips:
  "CHR ''('' \<notin> set t \<Longrightarrow> g \<noteq> [] \<Longrightarrow> CHR '')'' \<notin> set g \<Longrightarrow>
     removeTrailingGroup (t @ '' ('' @ g @ '')'') = t"
proof (induction t)
  case Nil
  then show ?case by (simp add: trailingGroupAt_def butlast_append)
next
  case (Cons c t)
  then have "\<not> trailingGroupAt (c # t @ '' ('' @ g @ '')'')"
    by (cases t) (auto simp: trailingGroupAt_def)
  with Cons show ?case by simp
qed

lemma trailingGroupAt_last: "trailingGroupAt s \<Longrightarrow> s \<noteq> [] \<and> last s = CHR '')''"
  by (auto simp: trailingGroupAt_def split: list.splits)

lemma removeTrailingGroup_keeps:
  "s = [] \<or> last s \<noteq> CHR '')'' \<Longrightarrow> removeTrailingGroup s = s"
proof (induction s)
  case Nil
  show ?case by simp
next
  case (Cons c s)
  then have n: "\<not> trailingGroupAt (c # s)"
    using trailingGroupAt_last [of "c # s"] by auto
  from Cons.prems have "s = [] \<or> last s \<noteq> CHR '')''"
    by (auto split: if_splits)
  with Cons.IH n show ?case by simp
qed

text \<open>
  C9, as the code has it. When the item contains a line break and does not begin with one,
  the title is the text before the first line break, trimmed and then with a trailing
  parenthesized group stripped, and the description is the text after that break, trimmed.
  When the item has no line break, the title is the whole item with a trailing
  parenthesized group stripped, and the description is empty. Stripping removes a final
  group of the form space, opening parenthesis, text, closing parenthesis, and changes
  nothing in a text that does not end in a closing parenthesis.
\<close>

theorem title_description:
  "(LF \<notin> set item \<longrightarrow>
      extractTitleDescription item = (removeTrailingGroup item, []))
   \<and> (LF \<in> set item \<and> hd item \<noteq> LF \<longrightarrow>
        extractTitleDescription item
          = (removeTrailingGroup (trim (takeWhile (\<lambda>c. c \<noteq> LF) item)),
             trim (tl (dropWhile (\<lambda>c. c \<noteq> LF) item))))
   \<and> (CHR ''('' \<notin> set t \<and> g \<noteq> [] \<and> CHR '')'' \<notin> set g \<longrightarrow>
        removeTrailingGroup (t @ '' ('' @ g @ '')'') = t)
   \<and> (s = [] \<or> last s \<noteq> CHR '')'' \<longrightarrow> removeTrailingGroup s = s)"
  using extractTitleDescription_whole [of item] extractTitleDescription_split [of item]
    removeTrailingGroup_strips [of t g] removeTrailingGroup_keeps [of s]
  by blast

theorem title_description_witness:
  "extractTitleDescription ''Fix crash in parser (Carol)'' = (''Fix crash in parser'', [])
   \<and> extractTitleDescription ''Fix x (Bob) \<newline>body '' = (''Fix x'', ''body'')
   \<and> removeTrailingGroup ''Fix x'' = ''Fix x''"
proof -
  note T = title_description [of "''Fix crash in parser (Carol)''" "''Fix crash in parser''"
      "''Carol''" "''Fix x''"]
  note U = title_description [of "''Fix x (Bob) \<newline>body ''" "''Fix x''" "''Bob''" "''Fix x''"]
  have "LF \<notin> set ''Fix crash in parser (Carol)''"
    by simp
  with T have a: "extractTitleDescription ''Fix crash in parser (Carol)''
      = (removeTrailingGroup ''Fix crash in parser (Carol)'', [])"
    by blast
  have "CHR ''('' \<notin> set ''Fix crash in parser'' \<and> ''Carol'' \<noteq> [] \<and> CHR '')'' \<notin> set ''Carol''"
    by simp
  with T have "removeTrailingGroup (''Fix crash in parser'' @ '' ('' @ ''Carol'' @ '')'')
      = ''Fix crash in parser''"
    by blast
  then have b: "removeTrailingGroup ''Fix crash in parser (Carol)'' = ''Fix crash in parser''"
    by simp
  have "LF \<in> set ''Fix x (Bob) \<newline>body '' \<and> hd ''Fix x (Bob) \<newline>body '' \<noteq> LF"
    by simp
  with U have c: "extractTitleDescription ''Fix x (Bob) \<newline>body ''
      = (removeTrailingGroup (trim (takeWhile (\<lambda>c. c \<noteq> LF) ''Fix x (Bob) \<newline>body '')),
         trim (tl (dropWhile (\<lambda>c. c \<noteq> LF) ''Fix x (Bob) \<newline>body '')))"
    by blast
  have d: "trim (takeWhile (\<lambda>c. c \<noteq> LF) ''Fix x (Bob) \<newline>body '') = ''Fix x (Bob)''"
    by code_simp
  have e: "trim (tl (dropWhile (\<lambda>c. c \<noteq> LF) ''Fix x (Bob) \<newline>body '')) = ''body''"
    by code_simp
  have "CHR ''('' \<notin> set ''Fix x'' \<and> ''Bob'' \<noteq> [] \<and> CHR '')'' \<notin> set ''Bob''"
    by simp
  with U have "removeTrailingGroup (''Fix x'' @ '' ('' @ ''Bob'' @ '')'') = ''Fix x''"
    by blast
  then have f: "removeTrailingGroup ''Fix x (Bob)'' = ''Fix x''"
    by simp
  have "''Fix x'' = [] \<or> last ''Fix x'' \<noteq> CHR '')''"
    by simp
  with T have g: "removeTrailingGroup ''Fix x'' = ''Fix x''"
    by blast
  from a b c d e f g show ?thesis
    by (simp only: simp_thms)
qed

text \<open>
  The claim C9 as written fails. The first line is trimmed before the trailing group is
  stripped, so the title of \<open>Fix x (Bob) \<close> followed by a line break and a body is
  \<open>Fix x\<close>, not the text up to the line break, which keeps its group behind the
  trailing space. And an item that begins with a line break is taken whole as the title,
  with an empty description, although the text up to its first line break is empty.
\<close>

theorem title_description_counterexample:
  "extractTitleDescription ''Fix x (Bob) \<newline>body'' = (''Fix x'', ''body'')
   \<and> titleDescriptionSpec ''Fix x (Bob) \<newline>body'' = (''Fix x (Bob) '', ''body'')
   \<and> extractTitleDescription (LF # ''Fix x'') = (LF # ''Fix x'', [])
   \<and> titleDescriptionSpec (LF # ''Fix x'') = ([], ''Fix x'')"
  by code_simp

section \<open>Aggregator: proofs\<close>

lemma foldl_summarizeRelease_security:
  "securityList (foldl summarizeRelease s rs)
     = securityList s
       @ concat (map (\<lambda>r. map (\<lambda>i. parseSecurityItem i (pVersion r)) (security (pCategories r))) rs)"
  by (induction rs arbitrary: s) (simp_all add: summarizeRelease_def Let_def)

lemma foldl_summarizeRelease_features:
  "featuresList (foldl summarizeRelease s rs)
     = featuresList s
       @ concat (map (\<lambda>r. map (\<lambda>i. parseFeatureItem i (pVersion r)) (features (pCategories r))) rs)"
  by (induction rs arbitrary: s) (simp_all add: summarizeRelease_def Let_def)

lemma foldl_summarizeRelease_performance:
  "performanceList (foldl summarizeRelease s rs)
     = performanceList s
       @ concat (map (\<lambda>r. map (\<lambda>i. parsePerformanceItem i (pVersion r))
                            (performance (pCategories r))) rs)"
  by (induction rs arbitrary: s) (simp_all add: summarizeRelease_def Let_def)

lemma foldl_summarizeRelease_bugs:
  "bugsList (foldl summarizeRelease s rs)
     = bugsList s
       @ concat (map (\<lambda>r. map (\<lambda>i. parseBugItem i (pVersion r)) (bugs (pCategories r))) rs)"
  by (induction rs arbitrary: s) (simp_all add: summarizeRelease_def Let_def)

lemma dom_stringifySummary:
  "dom (stringifySummary s)
     = {''versionDates'', ''bugs'', ''features'', ''performance'', ''security''}"
  by (auto simp: stringifySummary_def)

lemma parse_contributors:
  "contributors (parseSecurityItem i v) = extractContributors i"
  "contributors (parseFeatureItem i v) = extractContributors i"
  "contributors (parsePerformanceItem i v) = extractContributors i"
  "contributors (parseBugItem i v) = extractContributors i"
  by (simp_all add: parseSecurityItem_def parseFeatureItem_def parsePerformanceItem_def
      parseBugItem_def Let_def split: prod.split)

text \<open>
  C6, as the code has it. The summary that the Aggregator writes has the properties
  versionDates, bugs, features, performance and security and no other; there is no aggregate
  contributors set. Each category array holds, release after release and in the order of
  the release's bucket, the parsed entries of that bucket, and the contributor names are
  kept entry by entry: the contributors of an entry are the ones extracted from its item.
\<close>

theorem summary_shape:
  "dom (generateSummary rs)
     = {''versionDates'', ''bugs'', ''features'', ''performance'', ''security''}
   \<and> generateSummary rs ''security''
       = Some (EntryArray (concat (map (\<lambda>r. map (\<lambda>i. parseSecurityItem i (pVersion r))
                                                (security (pCategories r))) rs)))
   \<and> generateSummary rs ''features''
       = Some (EntryArray (concat (map (\<lambda>r. map (\<lambda>i. parseFeatureItem i (pVersion r))
                                                (features (pCategories r))) rs)))
   \<and> generateSummary rs ''performance''
       = Some (EntryArray (concat (map (\<lambda>r. map (\<lambda>i. parsePerformanceItem i (pVersion r))
                                                (performance (pCategories r))) rs)))
   \<and> generateSummary rs ''bugs''
       = Some (EntryArray (concat (map (\<lambda>r. map (\<lambda>i. parseBugItem i (pVersion r))
                                                (bugs (pCategories r))) rs)))
   \<and> contributors (parseSecurityItem i v) = extractContributors i
   \<and> contributors (parseFeatureItem i v) = extractContributors i
   \<and> contributors (parsePerformanceItem i v) = extractContributors i
   \<and> contributors (parseBugItem i v) = extractContributors i"
proof -
  have d: "dom (generateSummary rs)
      = {''versionDates'', ''bugs'', ''features'', ''performance'', ''security''}"
    by (simp only: generateSummary_def dom_stringifySummary)
  have s: "generateSummary rs ''security''
      = Some (EntryArray (concat (map (\<lambda>r. map (\<lambda>i. parseSecurityItem i (pVersion r))
                                               (security (pCategories r))) rs)))"
    by (simp add: generateSummary_def stringifySummary_def foldl_summarizeRelease_security
        emptySummary_def)
  have f: "generateSummary rs ''features''
      = Some (EntryArray (concat (map (\<lambda>r. map (\<lambda>i. parseFeatureItem i (pVersion r))
                                               (features (pCategories r))) rs)))"
    by (simp add: generateSummary_def stringifySummary_def foldl_summarizeRelease_features
        emptySummary_def)
  have p: "generateSummary rs ''performance''
      = Some (EntryArray (concat (map (\<lambda>r. map (\<lambda>i. parsePerformanceItem i (pVersion r))
                                               (performance (pCategories r))) rs)))"
    by (simp add: generateSummary_def stringifySummary_def foldl_summarizeRelease_performance
        emptySummary_def)
  have b: "generateSummary rs ''bugs''
      = Some (EntryArray (concat (map (\<lambda>r. map (\<lambda>i. parseBugItem i (pVersion r))
                                               (bugs (pCategories r))) rs)))"
    by (simp add: generateSummary_def stringifySummary_def foldl_summarizeRelease_bugs
        emptySummary_def)
  from d s f p b show ?thesis
    by (simp only: parse_contributors simp_thms)
qed

text \<open>
  The claim C6 as written fails: the summary of a release with one attributed item has no
  property \<open>contributors\<close>; the name is only in the entry of the item.
\<close>

theorem summary_shape_counterexample:
  "generateSummary
     [\<lparr>pVersion = ''16.1'', pReleaseDate = ''2023-11-09'',
       pCategories = \<lparr>performance = [], security = [], features = [],
                      bugs = [''Fix crash in parser (Carol)'']\<rparr>\<rparr>] ''contributors'' = None
   \<and> generateSummary
     [\<lparr>pVersion = ''16.1'', pReleaseDate = ''2023-11-09'',
       pCategories = \<lparr>performance = [], security = [], features = [],
                      bugs = [''Fix crash in parser (Carol)'']\<rparr>\<rparr>] ''bugs''
     = Some (EntryArray
         [\<lparr>cve = None, title = ''Fix crash in parser'', description = [],
           fixedIn = Some ''16.1'', sinceVersion = None, significant = Some False,
           contributors = [''Carol''], metrics = None, severity = None,
           impactScore = None\<rparr>])"
proof -
  have e: "parseBugItem ''Fix crash in parser (Carol)'' ''16.1''
      = \<lparr>cve = None, title = ''Fix crash in parser'', description = [],
         fixedIn = Some ''16.1'', sinceVersion = None, significant = Some False,
         contributors = [''Carol''], metrics = None, severity = None, impactScore = None\<rparr>"
    by code_simp
  show ?thesis
    by (simp add: generateSummary_def stringifySummary_def summarizeRelease_def
        emptySummary_def Let_def e)
qed

section \<open>Enricher: proofs\<close>

lemma severityQueried_eq: "severityQueried m = severityStored m"
  by (simp add: severityQueried_def severityStored_def)

lemma impactScoreQueried_eq: "impactScoreQueried m = impactScoreStored m"
  by (simp add: impactScoreQueried_def impactScoreStored_def)

lemma severityStored_precedence:
  "noEmptyArray m \<Longrightarrow> severityStored m = Inr (fst (metricPrecedence m))"
  by (auto simp: noEmptyArray_def severityStored_def metricPrecedence_def
      split: option.splits list.splits)

lemma impactScoreStored_precedence:
  "noEmptyArray m \<Longrightarrow> impactScoreStored m = Inr (snd (metricPrecedence m))"
  by (auto simp: noEmptyArray_def impactScoreStored_def metricPrecedence_def
      split: option.splits list.splits)

lemma enrichEntry_stored:
  assumes "metrics e = Some m" "noEmptyArray m"
  shows "enrichEntry lookup e
           = ([], Inr (e\<lparr>severity := Some (fst (metricPrecedence m)),
                          impactScore := Some (snd (metricPrecedence m))\<rparr>))"
  using assms
  by (simp add: enrichEntry_def severityStored_precedence impactScoreStored_precedence)

lemma enrichEntry_queried:
  assumes "metrics e = None" "noEmptyArray m"
    and "lookup (cveKey e) = Inr \<lparr>totalResults = 1, vulnerabilities = Some (m # ms)\<rparr>"
  shows "enrichEntry lookup e
           = ([cveKey e],
              Inr (e\<lparr>metrics := Some m, severity := Some (fst (metricPrecedence m)),
                     impactScore := Some (snd (metricPrecedence m))\<rparr>))"
  using assms
  by (simp add: enrichEntry_def severityQueried_eq impactScoreQueried_eq
      severityStored_precedence impactScoreStored_precedence)

text \<open>
  C10, as the code has it. For a security entry with metrics in which no schema version is
  present as an empty array, the Enricher sets severity and impactScore by the precedence schema 3.0, else
  schema 3.1, else schema 2, else the defaults \<open>None\<close> and 0. It does so on the path of an
  entry that already has metrics, without a query, and with the same result on the path
  that has just received the metrics from the advisory service as its single result.
\<close>

theorem metric_precedence:
  "(metrics e = Some m \<and> noEmptyArray m \<longrightarrow>
      enrichEntry lookup e
        = ([], Inr (e\<lparr>severity := Some (fst (metricPrecedence m)),
                       impactScore := Some (snd (metricPrecedence m))\<rparr>)))
   \<and> (metrics e = None \<and> noEmptyArray m
        \<and> lookup (cveKey e) = Inr \<lparr>totalResults = 1, vulnerabilities = Some (m # ms)\<rparr> \<longrightarrow>
        enrichEntry lookup e
          = ([cveKey e],
             Inr (e\<lparr>metrics := Some m, severity := Some (fst (metricPrecedence m)),
                    impactScore := Some (snd (metricPrecedence m))\<rparr>)))"
  using enrichEntry_stored [of e m lookup] enrichEntry_queried [of e m lookup ms]
  by blast

theorem metric_precedence_witness:
  "enrichEntry noMatchService
     \<lparr>cve = Some ''CVE-2023-1234'', title = ''Fix'', description = [], fixedIn = Some ''16.1'',
      sinceVersion = None, significant = None, contributors = [],
      metrics = Some \<lparr>cvssMetricV30 = None,
                      cvssMetricV31 = Some [\<lparr>cvssData = \<lparr>baseSeverity = ''HIGH''\<rparr>,
                                             impactScoreV3 = 6\<rparr>],
                      cvssMetricV2 = Some [\<lparr>baseSeverityV2 = ''MEDIUM'',
                                            impactScoreV2 = 3\<rparr>]\<rparr>,
      severity = None, impactScore = None\<rparr>
   = ([], Inr \<lparr>cve = Some ''CVE-2023-1234'', title = ''Fix'', description = [],
               fixedIn = Some ''16.1'', sinceVersion = None, significant = None,
               contributors = [],
               metrics = Some \<lparr>cvssMetricV30 = None,
                      cvssMetricV31 = Some [\<lparr>cvssData = \<lparr>baseSeverity = ''HIGH''\<rparr>,
                                             impactScoreV3 = 6\<rparr>],
                      cvssMetricV2 = Some [\<lparr>baseSeverityV2 = ''MEDIUM'',
                                            impactScoreV2 = 3\<rparr>]\<rparr>,
               severity = Some ''HIGH'', impactScore = Some 6\<rparr>)
   \<and> enrichEntry
       (singleResultService \<lparr>cvssMetricV30 = None, cvssMetricV31 = None,
                              cvssMetricV2 = Some [\<lparr>baseSeverityV2 = ''MEDIUM'',
                                                    impactScoreV2 = 3\<rparr>]\<rparr>)
       \<lparr>cve = Some ''CVE-2023-1234'', title = ''Fix'', description = [],
        fixedIn = Some ''16.1'', sinceVersion = None, significant = None, contributors = [],
        metrics = None, severity = None, impactScore = None\<rparr>
     = ([''CVE-2023-1234''],
        Inr \<lparr>cve = Some ''CVE-2023-1234'', title = ''Fix'', description = [],
             fixedIn = Some ''16.1'', sinceVersion = None, significant = None,
             contributors = [],
             metrics = Some \<lparr>cvssMetricV30 = None, cvssMetricV31 = None,
                             cvssMetricV2 = Some [\<lparr>baseSeverityV2 = ''MEDIUM'',
                                                   impactScoreV2 = 3\<rparr>]\<rparr>,
             severity = Some ''MEDIUM'', impactScore = Some 3\<rparr>)"
proof -
  let ?m1 = "\<lparr>cvssMetricV30 = None,
              cvssMetricV31 = Some [\<lparr>cvssData = \<lparr>baseSeverity = ''HIGH''\<rparr>,
                                     impactScoreV3 = 6\<rparr>],
              cvssMetricV2 = Some [\<lparr>baseSeverityV2 = ''MEDIUM'', impactScoreV2 = 3\<rparr>]\<rparr>"
  let ?m2 = "\<lparr>cvssMetricV30 = None, cvssMetricV31 = None,
              cvssMetricV2 = Some [\<lparr>baseSeverityV2 = ''MEDIUM'', impactScoreV2 = 3\<rparr>]\<rparr>"
  let ?e = "\<lparr>cve = Some ''CVE-2023-1234'', title = ''Fix'', description = [],
             fixedIn = Some ''16.1'', sinceVersion = None, significant = None,
             contributors = [], metrics = None, severity = None, impactScore = None\<rparr>"
  have p1: "metricPrecedence ?m1 = (''HIGH'', 6)"
    by (simp add: metricPrecedence_def)
  have p2: "metricPrecedence ?m2 = (''MEDIUM'', 3)"
    by (simp add: metricPrecedence_def)
  have h1: "metrics (?e\<lparr>metrics := Some ?m1\<rparr>) = Some ?m1 \<and> noEmptyArray ?m1"
    by (simp add: noEmptyArray_def)
  have h2: "metrics ?e = None \<and> noEmptyArray ?m2
      \<and> singleResultService ?m2 (cveKey ?e)
          = Inr \<lparr>totalResults = 1, vulnerabilities = Some (?m2 # [])\<rparr>"
    by (simp add: noEmptyArray_def singleResultService_def)
  from h1 metric_precedence [of "?e\<lparr>metrics := Some ?m1\<rparr>" ?m1 noMatchService]
  have a: "enrichEntry noMatchService (?e\<lparr>metrics := Some ?m1\<rparr>)
      = ([], Inr (?e\<lparr>metrics := Some ?m1, severity := Some (fst (metricPrecedence ?m1)),
                     impactScore := Some (snd (metricPrecedence ?m1))\<rparr>))"
    by simp
  from h2 metric_precedence [of ?e ?m2 "singleResultService ?m2" "[]"]
  have b: "enrichEntry (singleResultService ?m2) ?e
      = ([cveKey ?e],
         Inr (?e\<lparr>metrics := Some ?m2, severity := Some (fst (metricPrecedence ?m2)),
                impactScore := Some (snd (metricPrecedence ?m2))\<rparr>))"
    by blast
  from a b show ?thesis
    by (simp add: p1 p2 cveKey_def)
qed

text \<open>
  The claim C10 as written fails for metrics in which a schema version is present as an
  empty array: with an empty array for schema 3.0 and data for schema 3.1 the Enricher
  does not fall back to schema 3.1, whose severity is \<open>HIGH\<close>; reading the first element
  of the empty array throws, and the entry gets no severity and no impact score.
\<close>

theorem metric_precedence_counterexample:
  "enrichEntry noMatchService
     \<lparr>cve = Some ''CVE-2023-1234'', title = ''Fix'', description = [], fixedIn = Some ''16.1'',
      sinceVersion = None, significant = None, contributors = [],
      metrics = Some \<lparr>cvssMetricV30 = Some [],
                      cvssMetricV31 = Some [\<lparr>cvssData = \<lparr>baseSeverity = ''HIGH''\<rparr>,
                                             impactScoreV3 = 6\<rparr>],
                      cvssMetricV2 = None\<rparr>,
      severity = None, impactScore = None\<rparr>
     = ([], Inl TypeError)
   \<and> metricPrecedence \<lparr>cvssMetricV30 = Some [],
                      cvssMetricV31 = Some [\<lparr>cvssData = \<lparr>baseSeverity = ''HIGH''\<rparr>,
                                             impactScoreV3 = 6\<rparr>],
                      cvssMetricV2 = None\<rparr> = (''HIGH'', 6)"
  by code_simp

lemma enrichEntry_settles: "enrichEntry lookup e = (qs, Inr e') \<Longrightarrow> settled e'"
  by (auto simp: settled_def enrichEntry_def severityQueried_eq impactScoreQueried_eq
      split: option.splits sum.splits if_splits)

lemma enrichEntry_queries:
  "fst (enrichEntry lookup e) = (if metrics e = None then [cveKey e] else [])"
  by (simp add: enrichEntry_def split: option.splits sum.splits)

lemma enrichEntry_settled:
  "settled e \<Longrightarrow> metrics e = Some m \<Longrightarrow> enrichEntry lookup e = ([], Inr e)"
  by (cases e) (auto simp: settled_def enrichEntry_def split: sum.splits)

lemma enrichEntry_stored_only:
  assumes "metrics e = Some m"
  shows "enrichEntry lookup e = enrichEntry lookup' e"
    and "snd (enrichEntry lookup e) = Inr e' \<Longrightarrow>
           \<exists>s i. severityStored m = Inr s \<and> impactScoreStored m = Inr i
             \<and> e' = e\<lparr>severity := Some s, impactScore := Some i\<rparr>"
  using assms by (auto simp: enrichEntry_def split: sum.splits)

lemma addCVELoop_settles:
  "addCVELoop lookup done es = (out, qs, None) \<Longrightarrow>
     \<exists>es'. out = done @ es' \<and> length es' = length es \<and> (\<forall>e\<in>set es'. settled e)"
proof (induction es arbitrary: "done" out qs)
  case Nil
  then show ?case by simp
next
  case (Cons e es)
  obtain q0 r0 where e0: "enrichEntry lookup e = (q0, r0)"
    by (cases "enrichEntry lookup e")
  show ?case
  proof (cases r0)
    case (Inl err)
    with Cons.prems e0 show ?thesis by simp
  next
    case (Inr e')
    obtain f1 q1 x1 where l: "addCVELoop lookup (done @ [e']) es = (f1, q1, x1)"
      by (cases "addCVELoop lookup (done @ [e']) es")
    with Cons.prems e0 Inr have "f1 = out" "x1 = None" by simp_all
    with l Cons.IH obtain es' where
      es': "out = (done @ [e']) @ es'" "length es' = length es" "\<forall>x\<in>set es'. settled x"
      by blast
    have "settled e'" using e0 Inr by (auto dest: enrichEntry_settles)
    with es' have "out = done @ (e' # es') \<and> length (e' # es') = length (e # es)
        \<and> (\<forall>x\<in>set (e' # es'). settled x)"
      by simp
    then show ?thesis by blast
  qed
qed

lemma addCVELoop_rerun:
  "\<forall>e\<in>set es. settled e \<Longrightarrow> addCVELoop lookup done es = (out, qs, err) \<Longrightarrow>
     \<exists>es2. out = done @ es2
       \<and> list_all2 (\<lambda>a b. metrics a \<noteq> None \<longrightarrow> b = a) es es2
       \<and> set qs \<subseteq> cveKey ` {e \<in> set es. metrics e = None}
       \<and> ((\<forall>e\<in>set es. metrics e \<noteq> None) \<longrightarrow> qs = [] \<and> es2 = es \<and> err = None)"
proof (induction es arbitrary: "done" out qs err)
  case Nil
  then show ?case by simp
next
  case (Cons e es)
  obtain q0 r0 where e0: "enrichEntry lookup e = (q0, r0)"
    by (cases "enrichEntry lookup e")
  have q0: "q0 = (if metrics e = None then [cveKey e] else [])"
    using enrichEntry_queries [of lookup e] e0 by simp
  have keep: "metrics e \<noteq> None \<Longrightarrow> r0 = Inr e"
    using Cons.prems(1) e0 enrichEntry_settled [of e _ lookup] by auto
  show ?case
  proof (cases r0)
    case (Inl x)
    with Cons.prems(2) e0 have r: "out = done @ e # es" "qs = q0" "err = Some x"
      by simp_all
    have "list_all2 (\<lambda>a b. metrics a \<noteq> None \<longrightarrow> b = a) (e # es) (e # es)"
      by (simp add: list_all2_same)
    moreover have "set qs \<subseteq> cveKey ` {x \<in> set (e # es). metrics x = None}"
      using r(2) q0 by auto
    moreover have "\<not> (\<forall>x\<in>set (e # es). metrics x \<noteq> None)"
      using keep Inl by auto
    ultimately show ?thesis using r(1) by blast
  next
    case (Inr e')
    obtain f1 q1 x1 where l: "addCVELoop lookup (done @ [e']) es = (f1, q1, x1)"
      by (cases "addCVELoop lookup (done @ [e']) es")
    with Cons.prems(2) e0 Inr have r: "out = f1" "qs = q0 @ q1" "err = x1"
      by simp_all
    from Cons.prems(1) have "\<forall>x\<in>set es. settled x" by simp
    from Cons.IH [OF this l] obtain es2 where
      es2: "f1 = (done @ [e']) @ es2"
        "list_all2 (\<lambda>a b. metrics a \<noteq> None \<longrightarrow> b = a) es es2"
        "set q1 \<subseteq> cveKey ` {x \<in> set es. metrics x = None}"
        "(\<forall>x\<in>set es. metrics x \<noteq> None) \<longrightarrow> q1 = [] \<and> es2 = es \<and> x1 = None"
      by blast
    have same: "metrics e \<noteq> None \<longrightarrow> e' = e"
      using keep Inr by auto
    have "out = done @ (e' # es2)"
      using r(1) es2(1) by simp
    moreover have "list_all2 (\<lambda>a b. metrics a \<noteq> None \<longrightarrow> b = a) (e # es) (e' # es2)"
      using same es2(2) by simp
    moreover have "set qs \<subseteq> cveKey ` {x \<in> set (e # es). metrics x = None}"
      using r(2) q0 es2(3) by auto
    moreover have "(\<forall>x\<in>set (e # es). metrics x \<noteq> None) \<longrightarrow>
        qs = [] \<and> e' # es2 = e # es \<and> err = None"
      using r(2,3) q0 same es2(4) by auto
    ultimately show ?thesis by blast
  qed
qed

lemma addCVE_first_run:
  assumes "addCVE lookup file = (file1, qs, None)"
  shows "\<exists>es1. file1 ''security'' = Some (EntryArray es1) \<and> (\<forall>e\<in>set es1. settled e)"
proof -
  from assms obtain es where es: "file ''security'' = Some (EntryArray es)"
    by (auto simp: addCVE_def split: option.splits summaryValue.splits)
  obtain o1 q1 x1 where l: "addCVELoop lookup [] es = (o1, q1, x1)"
    by (cases "addCVELoop lookup [] es")
  with assms es have r: "file1 = file(''security'' \<mapsto> EntryArray o1)" "x1 = None"
    by (simp_all add: addCVE_def)
  from l r(2) addCVELoop_settles [of lookup "[]" es o1 q1]
  have "\<forall>e\<in>set o1. settled e" by auto
  with r(1) show ?thesis by simp
qed

lemma addCVE_rerun:
  assumes "file1 ''security'' = Some (EntryArray es1)" "\<forall>e\<in>set es1. settled e"
  shows "set (fst (snd (addCVE lookup file1))) \<subseteq> cveKey ` {e \<in> set es1. metrics e = None}"
    and "list_all2 (\<lambda>a b. metrics a \<noteq> None \<longrightarrow> b = a) es1
           (securityOf (fst (addCVE lookup file1)))"
    and "k \<noteq> ''security'' \<Longrightarrow> fst (addCVE lookup file1) k = file1 k"
    and "\<forall>e\<in>set es1. metrics e \<noteq> None \<Longrightarrow> addCVE lookup file1 = (file1, [], None)"
proof -
  obtain o2 q2 x2 where l: "addCVELoop lookup [] es1 = (o2, q2, x2)"
    by (cases "addCVELoop lookup [] es1")
  then have a: "addCVE lookup file1 = (file1(''security'' \<mapsto> EntryArray o2), q2, x2)"
    using assms(1) by (simp add: addCVE_def)
  from addCVELoop_rerun [OF assms(2) l]
  have r: "list_all2 (\<lambda>a b. metrics a \<noteq> None \<longrightarrow> b = a) es1 o2"
    "set q2 \<subseteq> cveKey ` {e \<in> set es1. metrics e = None}"
    "(\<forall>e\<in>set es1. metrics e \<noteq> None) \<longrightarrow> q2 = [] \<and> o2 = es1 \<and> x2 = None"
    by auto
  show "set (fst (snd (addCVE lookup file1))) \<subseteq> cveKey ` {e \<in> set es1. metrics e = None}"
    using a r(2) by simp
  show "list_all2 (\<lambda>a b. metrics a \<noteq> None \<longrightarrow> b = a) es1
      (securityOf (fst (addCVE lookup file1)))"
    using a r(1) by (simp add: securityOf_def)
  show "k \<noteq> ''security'' \<Longrightarrow> fst (addCVE lookup file1) k = file1 k"
    using a by simp
  show "\<forall>e\<in>set es1. metrics e \<noteq> None \<Longrightarrow> addCVE lookup file1 = (file1, [], None)"
  proof -
    assume "\<forall>e\<in>set es1. metrics e \<noteq> None"
    with r(3) have "q2 = []" "o2 = es1" "x2 = None" by simp_all
    moreover have "file1(''security'' \<mapsto> EntryArray es1) = file1"
      using assms(1) by (rule map_upd_triv)
    ultimately show ?thesis using a by simp
  qed
qed

text \<open>
  C7, as the code has it. For a security entry that already has metrics the Enricher sends
  no query, its result does not depend on the advisory service, and it changes nothing but
  severity and impactScore, which it sets to the values its stored metrics give. When a run over a summary has ended without an error, a second
  run over the file it wrote sends queries only for entries that still have no metrics,
  those whose query did not report exactly one result; it leaves every entry that has
  metrics, and every other property of the file, as it is; and when every security entry
  has metrics it sends no query at all and leaves the whole file unchanged.
\<close>

theorem enricher_rerun:
  "(metrics e = Some m \<longrightarrow>
      fst (enrichEntry lookup e) = []
      \<and> enrichEntry lookup e = enrichEntry lookup' e
      \<and> (\<forall>e'. snd (enrichEntry lookup e) = Inr e' \<longrightarrow>
            (\<exists>s i. severityStored m = Inr s \<and> impactScoreStored m = Inr i
               \<and> e' = e\<lparr>severity := Some s, impactScore := Some i\<rparr>)))
   \<and> (addCVE lookup1 file = (file1, qs1, None) \<longrightarrow>
        set (fst (snd (addCVE lookup2 file1)))
          \<subseteq> cveKey ` {x \<in> set (securityOf file1). metrics x = None}
        \<and> list_all2 (\<lambda>a b. metrics a \<noteq> None \<longrightarrow> b = a) (securityOf file1)
            (securityOf (fst (addCVE lookup2 file1)))
        \<and> (\<forall>k. k \<noteq> ''security'' \<longrightarrow> fst (addCVE lookup2 file1) k = file1 k)
        \<and> ((\<forall>x\<in>set (securityOf file1). metrics x \<noteq> None) \<longrightarrow>
              addCVE lookup2 file1 = (file1, [], None)))"
proof (intro conjI impI)
  assume m: "metrics e = Some m"
  then show "fst (enrichEntry lookup e) = []"
    by (simp add: enrichEntry_queries)
  from m show "enrichEntry lookup e = enrichEntry lookup' e"
    by (rule enrichEntry_stored_only(1))
  from m show "\<forall>e'. snd (enrichEntry lookup e) = Inr e' \<longrightarrow>
      (\<exists>s i. severityStored m = Inr s \<and> impactScoreStored m = Inr i
         \<and> e' = e\<lparr>severity := Some s, impactScore := Some i\<rparr>)"
    using enrichEntry_stored_only(2) by blast
next
  assume "addCVE lookup1 file = (file1, qs1, None)"
  from addCVE_first_run [OF this] obtain es1 where
    es1: "file1 ''security'' = Some (EntryArray es1)" "\<forall>e\<in>set es1. settled e"
    by blast
  then have s: "securityOf file1 = es1"
    by (simp add: securityOf_def)
  show "set (fst (snd (addCVE lookup2 file1)))
      \<subseteq> cveKey ` {x \<in> set (securityOf file1). metrics x = None}"
    unfolding s using addCVE_rerun(1) [of file1 es1 lookup2] es1 by blast
  show "list_all2 (\<lambda>a b. metrics a \<noteq> None \<longrightarrow> b = a) (securityOf file1)
      (securityOf (fst (addCVE lookup2 file1)))"
    unfolding s using addCVE_rerun(2) [of file1 es1 lookup2] es1 by blast
  show "\<forall>k. k \<noteq> ''security'' \<longrightarrow> fst (addCVE lookup2 file1) k = file1 k"
    using addCVE_rerun(3) [of file1 es1 _ lookup2] es1 by blast
  assume "\<forall>x\<in>set (securityOf file1). metrics x \<noteq> None"
  then show "addCVE lookup2 file1 = (file1, [], None)"
    unfolding s using addCVE_rerun(4) [of file1 es1 lookup2] es1 by blast
qed

theorem enricher_rerun_witness:
  "fst (enrichEntry noMatchService
      \<lparr>cve = Some ''CVE-2023-1234'', title = ''Fix'', description = [],
       fixedIn = Some ''16.1'', sinceVersion = None, significant = None, contributors = [],
       metrics = Some \<lparr>cvssMetricV30 = None, cvssMetricV31 = None,
                       cvssMetricV2 = Some [\<lparr>baseSeverityV2 = ''MEDIUM'',
                                             impactScoreV2 = 3\<rparr>]\<rparr>,
       severity = None, impactScore = None\<rparr>) = []
   \<and> snd (snd (addCVE
        (singleResultService \<lparr>cvssMetricV30 = None, cvssMetricV31 = None,
                               cvssMetricV2 = Some [\<lparr>baseSeverityV2 = ''MEDIUM'',
                                                     impactScoreV2 = 3\<rparr>]\<rparr>)
        [''security'' \<mapsto> EntryArray
           [\<lparr>cve = Some ''CVE-2023-1234'', title = ''Fix'', description = [],
             fixedIn = Some ''16.1'', sinceVersion = None, significant = None,
             contributors = [], metrics = None, severity = None, impactScore = None\<rparr>]]))
       = None
   \<and> addCVE noMatchService
       (fst (addCVE
          (singleResultService \<lparr>cvssMetricV30 = None, cvssMetricV31 = None,
                                 cvssMetricV2 = Some [\<lparr>baseSeverityV2 = ''MEDIUM'',
                                                       impactScoreV2 = 3\<rparr>]\<rparr>)
          [''security'' \<mapsto> EntryArray
             [\<lparr>cve = Some ''CVE-2023-1234'', title = ''Fix'', description = [],
               fixedIn = Some ''16.1'', sinceVersion = None, significant = None,
               contributors = [], metrics = None, severity = None, impactScore = None\<rparr>]]))
     = (fst (addCVE
          (singleResultService \<lparr>cvssMetricV30 = None, cvssMetricV31 = None,
                                 cvssMetricV2 = Some [\<lparr>baseSeverityV2 = ''MEDIUM'',
                                                       impactScoreV2 = 3\<rparr>]\<rparr>)
          [''security'' \<mapsto> EntryArray
             [\<lparr>cve = Some ''CVE-2023-1234'', title = ''Fix'', description = [],
               fixedIn = Some ''16.1'', sinceVersion = None, significant = None,
               contributors = [], metrics = None, severity = None, impactScore = None\<rparr>]]),
        [], None)"
proof -
  let ?m = "\<lparr>cvssMetricV30 = None, cvssMetricV31 = None,
             cvssMetricV2 = Some [\<lparr>baseSeverityV2 = ''MEDIUM'', impactScoreV2 = 3\<rparr>]\<rparr>"
  let ?e = "\<lparr>cve = Some ''CVE-2023-1234'', title = ''Fix'', description = [],
             fixedIn = Some ''16.1'', sinceVersion = None, significant = None,
             contributors = [], metrics = None, severity = None, impactScore = None\<rparr>"
  let ?run1 = "addCVE (singleResultService ?m) [''security'' \<mapsto> EntryArray [?e]]"
  note T = enricher_rerun [of "?e\<lparr>metrics := Some ?m\<rparr>" ?m noMatchService noMatchService
      "singleResultService ?m" "[''security'' \<mapsto> EntryArray [?e]]" "fst ?run1"
      "fst (snd ?run1)" noMatchService]
  have "metrics (?e\<lparr>metrics := Some ?m\<rparr>) = Some ?m"
    by simp
  with T have a: "fst (enrichEntry noMatchService (?e\<lparr>metrics := Some ?m\<rparr>)) = []"
    by blast
  have n: "snd (snd ?run1) = None"
    by code_simp
  then have h: "?run1 = (fst ?run1, fst (snd ?run1), None)"
    by (metis prod.collapse)
  have m: "\<forall>x\<in>set (securityOf (fst ?run1)). metrics x \<noteq> None"
    by code_simp
  from T h m have b: "addCVE noMatchService (fst ?run1) = (fst ?run1, [], None)"
    by blast
  from a n b show ?thesis
    by simp
qed

text \<open>
  The claim C7 as written fails: a security entry whose query reports no result stays
  without metrics, the run ends without an error, and a second run over the file the first
  run wrote sends the same query again.
\<close>

theorem enricher_rerun_counterexample:
  "snd (snd (addCVE noMatchService
      [''security'' \<mapsto> EntryArray
         [\<lparr>cve = Some ''CVE-2023-1234'', title = ''Fix'', description = [],
           fixedIn = Some ''16.1'', sinceVersion = None, significant = None,
           contributors = [], metrics = None, severity = None, impactScore = None\<rparr>]]))
     = None
   \<and> fst (snd (addCVE noMatchService
        (fst (addCVE noMatchService
           [''security'' \<mapsto> EntryArray
              [\<lparr>cve = Some ''CVE-2023-1234'', title = ''Fix'', description = [],
                fixedIn = Some ''16.1'', sinceVersion = None, significant = None,
                contributors = [], metrics = None, severity = None,
                impactScore = None\<rparr>]]))))
     = [''CVE-2023-1234'']"
  by code_simp

section \<open>Link Rewriter: proofs\<close>

lemma includesStr_tl: "includesStr (tl s) w \<Longrightarrow> s \<noteq> [] \<Longrightarrow> includesStr s w"
  by (cases s) simp_all

lemma linkMatchAt_Some:
  assumes "linkMatchAt s = Some (p1, rest)"
  shows "s = CHR ''('' # p1 @ CHR '')'' # rest \<and> CHR '')'' \<notin> set p1 \<and> p1 \<noteq> []
           \<and> includesStr (tl p1) ''.html''"
proof -
  from assms obtain c r where s: "s = c # r"
    by (cases s) (simp_all add: linkMatchAt_def)
  define t where "t = dropWhile (\<lambda>x. x \<noteq> CHR '')'') r"
  from assms s have c: "c = CHR ''(''" "t \<noteq> []" "p1 = takeWhile (\<lambda>x. x \<noteq> CHR '')'') r"
      "rest = tl t" "p1 \<noteq> []" "includesStr (tl p1) ''.html''"
    by (auto simp: linkMatchAt_def Let_def t_def split: if_splits)
  have "hd t = CHR '')''"
    using c(2) hd_dropWhile [of "\<lambda>x. x \<noteq> CHR '')''" r] by (simp add: t_def)
  with c(2,4) have t: "t = CHR '')'' # rest"
    by (cases t) simp_all
  have "r = p1 @ t"
    by (simp add: c(3) t_def)
  moreover have "CHR '')'' \<notin> set p1"
    unfolding c(3) by (auto dest: set_takeWhileD)
  ultimately show ?thesis
    using s c(1,5,6) t by simp
qed

lemma linkMatchAt_span:
  assumes "CHR '')'' \<notin> set p1"
  shows "linkMatchAt (c # p1 @ CHR '')'' # rest)
           = (if c = CHR ''('' \<and> p1 \<noteq> [] \<and> includesStr (tl p1) ''.html''
              then Some (p1, rest) else None)"
proof -
  have a: "\<And>x. x \<in> set p1 \<Longrightarrow> x \<noteq> CHR '')''"
    using assms by auto
  have tw: "takeWhile (\<lambda>x. x \<noteq> CHR '')'') (p1 @ CHR '')'' # rest) = p1"
    by (simp add: takeWhile_append2 a)
  have dw: "dropWhile (\<lambda>x. x \<noteq> CHR '')'') (p1 @ CHR '')'' # rest) = CHR '')'' # rest"
    by (simp add: dropWhile_append2 a)
  show ?thesis
    unfolding linkMatchAt_def list.case Let_def tw dw by simp
qed

lemma linkMatchAt_no_close: "CHR '')'' \<notin> set cs \<Longrightarrow> linkMatchAt (c # cs) = None"
  by (auto simp: linkMatchAt_def Let_def)

lemma replaceLinks_no_close: "CHR '')'' \<notin> set s \<Longrightarrow> replaceLinks f s = s"
  by (induction s) (simp_all add: linkMatchAt_no_close)

lemma replaceLinks_span:
  "CHR '')'' \<notin> set sp \<Longrightarrow> \<not> includesStr (tl sp) ''.html'' \<Longrightarrow>
     replaceLinks f (sp @ CHR '')'' # rest) = sp @ CHR '')'' # replaceLinks f rest"
proof (induction sp)
  case Nil
  have "linkMatchAt (CHR '')'' # rest) = None"
    by (simp add: linkMatchAt_def)
  then show ?case by simp
next
  case (Cons c sp)
  from Cons.prems have n: "CHR '')'' \<notin> set sp" and h: "\<not> includesStr sp ''.html''"
    by simp_all
  from h have h': "\<not> includesStr (tl sp) ''.html''"
    by (cases sp) auto
  have "linkMatchAt (c # sp @ CHR '')'' # rest) = None"
    using h h' by (simp add: linkMatchAt_span [OF n])
  with Cons.IH [OF n h'] show ?case by simp
qed

lemma linkMatchAt_None_replace:
  assumes "linkMatchAt (c # cs) = None"
  shows "linkMatchAt (c # replaceLinks f cs) = None"
proof (cases "CHR '')'' \<in> set cs")
  case False
  with assms show ?thesis by (simp add: replaceLinks_no_close)
next
  case True
  then obtain p1 rest where cs: "cs = p1 @ CHR '')'' # rest" "CHR '')'' \<notin> set p1"
    by (auto dest: split_list_first)
  show ?thesis
  proof (cases "c = CHR ''(''")
    case False
    then show ?thesis by (simp add: linkMatchAt_def)
  next
    case True
    with assms cs have no: "\<not> (p1 \<noteq> [] \<and> includesStr (tl p1) ''.html'')"
      by (simp add: linkMatchAt_span split: if_splits)
    then have "\<not> includesStr (tl p1) ''.html''"
      by (cases p1) auto
    then have "replaceLinks f cs = p1 @ CHR '')'' # replaceLinks f rest"
      unfolding cs(1) using cs(2) by (simp add: replaceLinks_span)
    with no cs(2) show ?thesis
      by (simp add: linkMatchAt_span)
  qed
qed

lemma replaceLinks_idem:
  assumes stable: "\<And>p1 x. CHR '')'' \<notin> set p1 \<Longrightarrow> p1 \<noteq> [] \<Longrightarrow> includesStr (tl p1) ''.html''
      \<Longrightarrow> replaceLinks f (f (CHR ''('' # p1 @ '')'') p1 @ x)
          = f (CHR ''('' # p1 @ '')'') p1 @ replaceLinks f x"
  shows "replaceLinks f (replaceLinks f s) = replaceLinks f s"
proof (induction "length s" arbitrary: s rule: less_induct)
  case less
  show ?case
  proof (cases s)
    case Nil
    then show ?thesis by simp
  next
    case (Cons c cs)
    show ?thesis
    proof (cases "linkMatchAt (c # cs)")
      case None
      have "replaceLinks f (replaceLinks f cs) = replaceLinks f cs"
        using less [of cs] Cons by simp
      with None linkMatchAt_None_replace [OF None, of f] Cons show ?thesis
        by simp
    next
      case (Some m)
      obtain p1 rest where m: "m = (p1, rest)" by (cases m)
      from Some m linkMatchAt_Some [of "c # cs" p1 rest]
      have p: "c # cs = CHR ''('' # p1 @ CHR '')'' # rest" "CHR '')'' \<notin> set p1" "p1 \<noteq> []"
        "includesStr (tl p1) ''.html''"
        by simp_all
      from p(1) have "length rest < length s"
        using Cons by (metis Some m linkMatchAt_shorter length_Cons)
      then have ih: "replaceLinks f (replaceLinks f rest) = replaceLinks f rest"
        by (rule less)
      have r: "replaceLinks f s = f (CHR ''('' # p1 @ '')'') p1 @ replaceLinks f rest"
        using Cons Some m by simp
      show ?thesis
        unfolding r by (simp only: stable [OF p(2-4)] ih)
    qed
  qed
qed

lemma killLinks_idem: "killLinks (killLinks t) = killLinks t"
  unfolding killLinks_def by (rule replaceLinks_idem) simp

lemma set_hd_splitStr: "set (hd (splitStr sep s)) \<subseteq> set s"
proof (induction sep s rule: splitStr.induct)
  case (1 sep s)
  show ?case
  proof (cases "s = []")
    case True
    then show ?thesis by (subst splitStr.simps) simp
  next
    case False
    show ?thesis
    proof (cases "sep \<noteq> [] \<and> startsWith s sep")
      case True
      with False show ?thesis by (subst splitStr.simps) simp
    next
      case no: False
      from "1.IH"(2) [OF False no] have ih: "set (hd (splitStr sep (tl s))) \<subseteq> set (tl s)" .
      have "set (hd (splitStr sep s)) \<subseteq> insert (hd s) (set (hd (splitStr sep (tl s))))"
        using False no by (subst splitStr.simps) (auto split: list.splits)
      moreover have "insert (hd s) (set (tl s)) = set s"
        using False by (cases s) auto
      ultimately show ?thesis using ih by blast
    qed
  qed
qed

lemma baseUrlOf_no_close: "CHR '')'' \<notin> set v \<Longrightarrow> CHR '')'' \<notin> set (baseUrlOf v)"
  using set_hd_splitStr [of "''.''" v] by (auto simp: baseUrlOf_def)

lemma baseUrlOf_http: "startsWith (baseUrlOf v @ p) ''http''"
  by (simp add: baseUrlOf_def startsWith_def)

lemma updateLinks_stable:
  assumes b: "CHR '')'' \<notin> set b" "startsWith b ''http''" "b \<noteq> []"
    and p: "CHR '')'' \<notin> set p1" "p1 \<noteq> []" "includesStr (tl p1) ''.html''"
  defines "f \<equiv> \<lambda>match p1. if \<not> startsWith p1 ''http'' then ''('' @ b @ p1 @ '')'' else match"
  shows "replaceLinks f (f (CHR ''('' # p1 @ '')'') p1 @ x)
           = f (CHR ''('' # p1 @ '')'') p1 @ replaceLinks f x"
proof (cases "startsWith p1 ''http''")
  case True
  then have "f (CHR ''('' # p1 @ '')'') p1 = CHR ''('' # p1 @ '')''"
    by (simp add: f_def)
  moreover have "linkMatchAt (CHR ''('' # p1 @ CHR '')'' # x) = Some (p1, x)"
    using p by (simp add: linkMatchAt_span)
  ultimately show ?thesis
    using True by (simp add: f_def)
next
  case False
  then have o: "f (CHR ''('' # p1 @ '')'') p1 = CHR ''('' # (b @ p1) @ '')''"
    by (simp add: f_def)
  have n: "CHR '')'' \<notin> set (b @ p1)"
    using b(1) p(1) by simp
  have "includesStr p1 ''.html''"
    using p(2,3) by (rule includesStr_tl [rotated])
  then have "includesStr (tl b @ p1 @ []) ''.html''"
    by (rule includesStr_within)
  then have i: "includesStr (tl (b @ p1)) ''.html''"
    using b(3) by simp
  have h: "startsWith (b @ p1) ''http''"
    using b(2) by (auto simp: startsWith_iff)
  have "linkMatchAt (CHR ''('' # (b @ p1) @ CHR '')'' # x) = Some (b @ p1, x)"
    using linkMatchAt_span [OF n, of "CHR ''(''" x] i b(3) by simp
  then have "replaceLinks f (CHR ''('' # (b @ p1) @ CHR '')'' # x)
      = f (CHR ''('' # (b @ p1) @ '')'') (b @ p1) @ replaceLinks f x"
    by simp
  also have "f (CHR ''('' # (b @ p1) @ '')'') (b @ p1) = CHR ''('' # (b @ p1) @ '')''"
    using h by (simp add: f_def)
  finally show ?thesis
    unfolding o by simp
qed

lemma updateLinks_idem:
  assumes "CHR '')'' \<notin> set v"
  shows "updateLinks (updateLinks d v) v = updateLinks d v"
proof -
  define b where "b = baseUrlOf (if v \<noteq> [] then v else ''0'')"
  have b: "CHR '')'' \<notin> set b" "startsWith b ''http''" "b \<noteq> []"
    using assms baseUrlOf_no_close [of "if v \<noteq> [] then v else ''0''"]
      baseUrlOf_http [of "if v \<noteq> [] then v else ''0''" "[]"]
    by (auto simp: b_def baseUrlOf_def)
  show ?thesis
    unfolding updateLinks_def Let_def b_def [symmetric]
    by (rule replaceLinks_idem) (rule updateLinks_stable [OF b])
qed

lemma updateLinks_absolute:
  assumes "startsWith p1 ''http''" "CHR '')'' \<notin> set p1"
  shows "updateLinks (CHR ''('' # p1 @ '')'') v = CHR ''('' # p1 @ '')''"
proof (cases "p1 \<noteq> [] \<and> includesStr (tl p1) ''.html''")
  case True
  then have "linkMatchAt (CHR ''('' # p1 @ CHR '')'' # []) = Some (p1, [])"
    using assms(2) by (simp add: linkMatchAt_span)
  then show ?thesis
    using assms(1) by (simp add: updateLinks_def Let_def)
next
  case False
  then have "linkMatchAt (CHR ''('' # p1 @ CHR '')'' # []) = None"
    using assms(2) by (simp add: linkMatchAt_span)
  moreover have "\<not> includesStr (tl p1) ''.html''"
    using False by (cases p1) auto
  ultimately show ?thesis
    using assms(2) replaceLinks_span [of p1 _ "[]"] by (simp add: updateLinks_def Let_def)
qed

lemma updateLinks_relative:
  assumes "\<not> startsWith p1 ''http''" "CHR '')'' \<notin> set p1" "p1 \<noteq> []"
    "includesStr (tl p1) ''.html''"
  shows "updateLinks (CHR ''('' # p1 @ '')'') v
           = ''('' @ baseUrlOf (if v \<noteq> [] then v else ''0'') @ p1 @ '')''"
proof -
  have "linkMatchAt (CHR ''('' # p1 @ CHR '')'' # []) = Some (p1, [])"
    using assms(2-4) by (simp add: linkMatchAt_span)
  then show ?thesis
    using assms(1) by (simp add: updateLinks_def Let_def)
qed

lemma updateItem_versions:
  "fixedIn (updateItem item) = fixedIn item"
  "sinceVersion (updateItem item) = sinceVersion item"
  by (simp_all add: updateItem_def Let_def)

lemma itemVersion_updateItem: "itemVersion (updateItem item) = itemVersion item"
  unfolding itemVersion_def by (simp only: updateItem_versions)

lemma killLinks_Nil: "killLinks [] = []"
  by (simp add: killLinks_def)

lemma updateLinks_Nil: "updateLinks [] v = []"
  by (simp add: updateLinks_def Let_def)

lemma updateItem_idem:
  assumes "CHR '')'' \<notin> set (itemVersion item)"
  shows "updateItem (updateItem item) = updateItem item"
proof -
  have t: "title (updateItem item) = killLinks (title item)"
    by (simp add: updateItem_def Let_def killLinks_Nil)
  have d: "description (updateItem item) = updateLinks (description item) (itemVersion item)"
    by (simp add: updateItem_def Let_def updateLinks_Nil)
  have "updateItem (updateItem item)
      = (updateItem item)\<lparr>title := killLinks (title (updateItem item)),
           description := updateLinks (description (updateItem item)) (itemVersion item)\<rparr>"
    unfolding updateItem_def [of "updateItem item"] itemVersion_updateItem Let_def
    by (simp add: killLinks_Nil updateLinks_Nil)
  also have "\<dots> = (updateItem item)\<lparr>title := title (updateItem item),
           description := description (updateItem item)\<rparr>"
    unfolding t d by (simp only: killLinks_idem updateLinks_idem [OF assms])
  finally show ?thesis by simp
qed

lemma updateCategory_apply:
  "updateCategory json c k =
     (if k = c
      then (case json c of
              Some (EntryArray items) \<Rightarrow> Some (EntryArray (map updateItem items))
            | v \<Rightarrow> v)
      else json k)"
  by (simp add: updateCategory_def split: option.split summaryValue.split)

lemma updateFormattedLinks_apply:
  "updateFormattedLinks json k =
     (if k \<in> {''bugs'', ''features'', ''performance'', ''security''}
      then (case json k of
              Some (EntryArray items) \<Rightarrow> Some (EntryArray (map updateItem items))
            | v \<Rightarrow> v)
      else json k)"
  by (simp add: updateFormattedLinks_def updateCategory_apply)

lemma updateFormattedLinks_idem:
  assumes "versionsPlain json"
  shows "updateFormattedLinks (updateFormattedLinks json) = updateFormattedLinks json"
proof
  fix k
  show "updateFormattedLinks (updateFormattedLinks json) k = updateFormattedLinks json k"
  proof (cases "k \<in> {''bugs'', ''features'', ''performance'', ''security''}")
    case False
    then show ?thesis by (simp only: updateFormattedLinks_apply if_False)
  next
    case True
    show ?thesis
    proof (cases "json k")
      case None
      with True show ?thesis by (simp only: updateFormattedLinks_apply) simp
    next
      case (Some val)
      show ?thesis
      proof (cases val)
        case (DatesObject m)
        with Some True show ?thesis by (simp only: updateFormattedLinks_apply) simp
      next
        case (EntryArray items)
        have "\<forall>item\<in>set items. updateItem (updateItem item) = updateItem item"
          using assms Some EntryArray updateItem_idem by (auto simp: versionsPlain_def)
        then have "map updateItem (map updateItem items) = map updateItem items"
          by simp
        with Some EntryArray True show ?thesis
          by (simp only: updateFormattedLinks_apply) simp
      qed
    qed
  qed
qed

text \<open>
  C8, as the code has it. The Link Rewriter is idempotent on the summary files whose
  entries have versions without a closing parenthesis, as every dotted numeric version is:
  for such a file, applying it twice gives what applying it once gives. Stripping the link
  targets from a title is stable under re-application for every title. Rewriting a
  description twice with a version without a closing parenthesis gives what rewriting it
  once gives, and a parenthesized target that already starts with \<open>http\<close> is left as it
  is, while a parenthesized \<open>.html\<close> target that does not start with \<open>http\<close> gets the
  base URL of its version in front.
\<close>

theorem link_rewriter_idempotent:
  "(versionsPlain json \<longrightarrow>
      updateFormattedLinks (updateFormattedLinks json) = updateFormattedLinks json)
   \<and> killLinks (killLinks t) = killLinks t
   \<and> (CHR '')'' \<notin> set v \<longrightarrow> updateLinks (updateLinks d v) v = updateLinks d v)
   \<and> (startsWith p1 ''http'' \<and> CHR '')'' \<notin> set p1 \<longrightarrow>
        updateLinks (CHR ''('' # p1 @ '')'') w = CHR ''('' # p1 @ '')'')
   \<and> (\<not> startsWith p2 ''http'' \<and> CHR '')'' \<notin> set p2 \<and> p2 \<noteq> []
        \<and> includesStr (tl p2) ''.html'' \<longrightarrow>
        updateLinks (CHR ''('' # p2 @ '')'') w
          = ''('' @ baseUrlOf (if w \<noteq> [] then w else ''0'') @ p2 @ '')'')"
  using updateFormattedLinks_idem [of json] killLinks_idem [of t] updateLinks_idem [of v d]
    updateLinks_absolute [of p1 w] updateLinks_relative [of p2 w]
  by blast

theorem link_rewriter_idempotent_witness:
  "updateFormattedLinks
     [''bugs'' \<mapsto> EntryArray
        [\<lparr>cve = None, title = ''Fix [psql](app-psql.html) crash'',
          description = ''See [the docs](app-psql.html) and (https://example.org/a.html)'',
          fixedIn = Some ''16.1'', sinceVersion = None, significant = Some False,
          contributors = [''Carol''], metrics = None, severity = None,
          impactScore = None\<rparr>]] ''bugs''
     = Some (EntryArray
        [\<lparr>cve = None, title = ''Fix [psql] crash'',
          description = ''See [the docs](https://www.postgresql.org/docs/16/app-psql.html) and (https://example.org/a.html)'',
          fixedIn = Some ''16.1'', sinceVersion = None, significant = Some False,
          contributors = [''Carol''], metrics = None, severity = None,
          impactScore = None\<rparr>])
   \<and> updateFormattedLinks (updateFormattedLinks
       [''bugs'' \<mapsto> EntryArray
          [\<lparr>cve = None, title = ''Fix [psql](app-psql.html) crash'',
            description = ''See [the docs](app-psql.html) and (https://example.org/a.html)'',
            fixedIn = Some ''16.1'', sinceVersion = None, significant = Some False,
            contributors = [''Carol''], metrics = None, severity = None,
            impactScore = None\<rparr>]])
     = updateFormattedLinks
         [''bugs'' \<mapsto> EntryArray
            [\<lparr>cve = None, title = ''Fix [psql](app-psql.html) crash'',
              description = ''See [the docs](app-psql.html) and (https://example.org/a.html)'',
              fixedIn = Some ''16.1'', sinceVersion = None, significant = Some False,
              contributors = [''Carol''], metrics = None, severity = None,
              impactScore = None\<rparr>]]
   \<and> updateLinks (updateLinks ''See [the docs](app-psql.html)'' ''16.1'') ''16.1''
       = ''See [the docs](https://www.postgresql.org/docs/16/app-psql.html)''
   \<and> updateLinks ''(https://example.org/a.html)'' ''16.1'' = ''(https://example.org/a.html)''
   \<and> updateLinks ''(app-psql.html)'' ''16.1''
       = ''(https://www.postgresql.org/docs/16/app-psql.html)''"
proof -
  let ?e = "\<lparr>cve = None, title = ''Fix [psql](app-psql.html) crash'',
          description = ''See [the docs](app-psql.html) and (https://example.org/a.html)'',
          fixedIn = Some ''16.1'', sinceVersion = None, significant = Some False,
          contributors = [''Carol''], metrics = None, severity = None,
          impactScore = None\<rparr>"
  let ?json = "[''bugs'' \<mapsto> EntryArray [?e]]"
  note T = link_rewriter_idempotent [of ?json "''Fix [psql](app-psql.html) crash''" "''16.1''"
      "''See [the docs](app-psql.html)''" "''https://example.org/a.html''" "''16.1''"
      "''app-psql.html''"]
  have u: "updateItem ?e
      = \<lparr>cve = None, title = ''Fix [psql] crash'',
          description = ''See [the docs](https://www.postgresql.org/docs/16/app-psql.html) and (https://example.org/a.html)'',
          fixedIn = Some ''16.1'', sinceVersion = None, significant = Some False,
          contributors = [''Carol''], metrics = None, severity = None,
          impactScore = None\<rparr>"
    by code_simp
  have a: "updateFormattedLinks ?json ''bugs'' = Some (EntryArray [updateItem ?e])"
    by (simp add: updateFormattedLinks_apply)
  have "versionsPlain ?json"
    by (auto simp: versionsPlain_def itemVersion_def split: if_splits)
  with T have b: "updateFormattedLinks (updateFormattedLinks ?json) = updateFormattedLinks ?json"
    by blast
  have "CHR '')'' \<notin> set ''16.1''"
    by simp
  with T have "updateLinks (updateLinks ''See [the docs](app-psql.html)'' ''16.1'') ''16.1''
      = updateLinks ''See [the docs](app-psql.html)'' ''16.1''"
    by blast
  moreover have "updateLinks ''See [the docs](app-psql.html)'' ''16.1''
      = ''See [the docs](https://www.postgresql.org/docs/16/app-psql.html)''"
    by code_simp
  ultimately have c: "updateLinks (updateLinks ''See [the docs](app-psql.html)'' ''16.1'') ''16.1''
      = ''See [the docs](https://www.postgresql.org/docs/16/app-psql.html)''"
    by simp
  have "startsWith ''https://example.org/a.html'' ''http''
      \<and> CHR '')'' \<notin> set ''https://example.org/a.html''"
    by (simp add: startsWith_def)
  with T have "updateLinks (CHR ''('' # ''https://example.org/a.html'' @ '')'') ''16.1''
      = CHR ''('' # ''https://example.org/a.html'' @ '')''"
    by blast
  then have d: "updateLinks ''(https://example.org/a.html)'' ''16.1''
      = ''(https://example.org/a.html)''"
    by simp
  have "\<not> startsWith ''app-psql.html'' ''http'' \<and> CHR '')'' \<notin> set ''app-psql.html''
      \<and> ''app-psql.html'' \<noteq> [] \<and> includesStr (tl ''app-psql.html'') ''.html''"
    by code_simp
  with T have "updateLinks (CHR ''('' # ''app-psql.html'' @ '')'') ''16.1''
      = ''('' @ baseUrlOf (if ''16.1'' \<noteq> [] then ''16.1'' else ''0'') @ ''app-psql.html'' @ '')''"
    by blast
  moreover have "''('' @ baseUrlOf (if ''16.1'' \<noteq> [] then ''16.1'' else ''0'')
      @ ''app-psql.html'' @ '')'' = ''(https://www.postgresql.org/docs/16/app-psql.html)''"
    by code_simp
  ultimately have e: "updateLinks ''(app-psql.html)'' ''16.1''
      = ''(https://www.postgresql.org/docs/16/app-psql.html)''"
    by simp
  from a u b c d e show ?thesis
    by (simp only: simp_thms)
qed

text \<open>
  The claim C8 as written fails for a version with a closing parenthesis in its major
  part: the base URL put in front of a target then ends the parenthesized text early, the
  rest begins a new parenthesized \<open>.html\<close> target that does not start with \<open>http\<close>, and
  the second pass puts the base URL in front of it again. So for the description
  \<open>(x.html)\<close> of an entry fixed in version \<open>a)(b.1\<close> two passes give another text than one
  pass, in the description alone and in the summary file.
\<close>

theorem link_rewriter_idempotent_counterexample:
  "updateLinks ''(x.html)'' ''a)(b.1'' = ''(https://www.postgresql.org/docs/a)(b/x.html)''
   \<and> updateLinks (updateLinks ''(x.html)'' ''a)(b.1'') ''a)(b.1''
       = ''(https://www.postgresql.org/docs/a)(https://www.postgresql.org/docs/a)(b/b/x.html)''
   \<and> description (hd (securityOf (updateFormattedLinks
        [''security'' \<mapsto> EntryArray
           [\<lparr>cve = None, title = ''Fix'', description = ''(x.html)'',
             fixedIn = Some ''a)(b.1'', sinceVersion = None, significant = None,
             contributors = [], metrics = None, severity = None, impactScore = None\<rparr>]])))
       = ''(https://www.postgresql.org/docs/a)(b/x.html)''
   \<and> description (hd (securityOf (updateFormattedLinks (updateFormattedLinks
        [''security'' \<mapsto> EntryArray
           [\<lparr>cve = None, title = ''Fix'', description = ''(x.html)'',
             fixedIn = Some ''a)(b.1'', sinceVersion = None, significant = None,
             contributors = [], metrics = None, severity = None, impactScore = None\<rparr>]]))))
       = ''(https://www.postgresql.org/docs/a)(https://www.postgresql.org/docs/a)(b/b/x.html)''"
  by code_simp

section \<open>Item Extractor: proofs\<close>

lemma parseReleaseNotes_Cons:
  "parseReleaseNotes translate cache (file # files) =
     (if isReleaseFile file
      then (case parseFile translate cache file of
              Inl err \<Rightarrow> Inl err
            | Inr r \<Rightarrow> map_sum id ((#) r) (parseReleaseNotes translate cache files))
      else parseReleaseNotes translate cache files)"
  by (simp add: isReleaseFile_def parseFile_def split: option.split sum.split)

lemma parseReleaseNotes_filter:
  "parseReleaseNotes translate cache (filter isReleaseFile files)
     = parseReleaseNotes translate cache files"
  by (induction files) (simp_all only: filter.simps parseReleaseNotes_Cons split: if_split, simp_all)

lemma parseReleaseNotes_Inr_iff:
  "(parseReleaseNotes translate cache files = Inr rs)
     = ((\<forall>f\<in>set files. isReleaseFile f \<longrightarrow> \<not> isl (parseFile translate cache f))
        \<and> rs = map (\<lambda>f. projr (parseFile translate cache f)) (filter isReleaseFile files))"
proof (induction files arbitrary: rs)
  case Nil
  show ?case by auto
next
  case (Cons f0 files)
  show ?case
  proof (cases "isReleaseFile f0")
    case False
    with Cons.IH [of rs] show ?thesis
      by (simp add: parseReleaseNotes_Cons del: parseReleaseNotes.simps)
  next
    case True
    show ?thesis
    proof (cases "parseFile translate cache f0")
      case (Inl err)
      with True show ?thesis
        by (simp add: parseReleaseNotes_Cons del: parseReleaseNotes.simps)
    next
      case (Inr r)
      show ?thesis
      proof (cases "parseReleaseNotes translate cache files")
        case l: (Inl err)
        then have "\<not> (\<forall>f\<in>set files. isReleaseFile f \<longrightarrow> \<not> isl (parseFile translate cache f))"
          using Cons.IH by (metis sum.distinct(1))
        with True Inr l show ?thesis
          by (auto simp: parseReleaseNotes_Cons simp del: parseReleaseNotes.simps)
      next
        case r: (Inr rs')
        with Cons.IH [of rs'] True Inr show ?thesis
          by (auto simp: parseReleaseNotes_Cons simp del: parseReleaseNotes.simps)
      qed
    qed
  qed
qed

lemma parseReleaseNotes_list_all2:
  assumes "parseReleaseNotes translate cache files = Inr rs"
  shows "list_all2 (\<lambda>f r. parseFile translate cache f = Inr r) (filter isReleaseFile files) rs"
proof -
  from assms have ok: "\<forall>f\<in>set files. isReleaseFile f \<longrightarrow> \<not> isl (parseFile translate cache f)"
    and rs: "rs = map (\<lambda>f. projr (parseFile translate cache f)) (filter isReleaseFile files)"
    by (simp_all add: parseReleaseNotes_Inr_iff)
  have "\<forall>f\<in>set (filter isReleaseFile files).
      parseFile translate cache f = Inr (projr (parseFile translate cache f))"
    using ok by (auto simp: sum.collapse(2))
  then show ?thesis
    unfolding rs by (simp add: list_all2_map2 list_all2_same)
qed

lemma parseReleaseNotes_permuted:
  assumes "mset files' = mset files" "parseReleaseNotes translate cache files = Inr rs"
  shows "\<exists>rs'. parseReleaseNotes translate cache files' = Inr rs' \<and> mset rs' = mset rs"
proof -
  let ?g = "\<lambda>f. projr (parseFile translate cache f)"
  from assms(2) have ok: "\<forall>f\<in>set files. isReleaseFile f \<longrightarrow> \<not> isl (parseFile translate cache f)"
    and rs: "rs = map ?g (filter isReleaseFile files)"
    by (simp_all add: parseReleaseNotes_Inr_iff)
  have "set files' = set files"
    using assms(1) by (rule mset_eq_setD)
  with ok have "parseReleaseNotes translate cache files' = Inr (map ?g (filter isReleaseFile files'))"
    by (simp add: parseReleaseNotes_Inr_iff)
  moreover have "mset (map ?g (filter isReleaseFile files')) = mset rs"
    unfolding rs by (simp add: assms(1))
  ultimately show ?thesis by blast
qed

text \<open>
  C2, as the code has it. The files are read in the order of the directory listing as it
  is given; nothing sorts it. The output holds one release for each release file of the
  listing, in the listing's order. Two listings that are permutations of each other over
  the same cache yield the same releases, but each in its own order: when one run
  succeeds so does the other, and the outputs agree as multisets. The outputs are
  identical when the release files stand in the same order in both listings.
\<close>

theorem listing_order:
  "(parseReleaseNotes translate cache files = Inr rs \<longrightarrow>
      list_all2 (\<lambda>f r. parseFile translate cache f = Inr r) (filter isReleaseFile files) rs)
   \<and> (mset files' = mset files \<and> parseReleaseNotes translate cache files = Inr rs \<longrightarrow>
        (\<exists>rs'. parseReleaseNotes translate cache files' = Inr rs' \<and> mset rs' = mset rs))
   \<and> (filter isReleaseFile files' = filter isReleaseFile files \<longrightarrow>
        parseReleaseNotes translate cache files' = parseReleaseNotes translate cache files)"
proof (intro conjI impI)
  assume "parseReleaseNotes translate cache files = Inr rs"
  then show "list_all2 (\<lambda>f r. parseFile translate cache f = Inr r)
      (filter isReleaseFile files) rs"
    by (rule parseReleaseNotes_list_all2)
next
  assume "mset files' = mset files \<and> parseReleaseNotes translate cache files = Inr rs"
  then show "\<exists>rs'. parseReleaseNotes translate cache files' = Inr rs' \<and> mset rs' = mset rs"
    using parseReleaseNotes_permuted by blast
next
  assume "filter isReleaseFile files' = filter isReleaseFile files"
  then show "parseReleaseNotes translate cache files' = parseReleaseNotes translate cache files"
    using parseReleaseNotes_filter [of translate cache files']
      parseReleaseNotes_filter [of translate cache files]
    by simp
qed

theorem listing_order_witness:
  "list_all2
     (\<lambda>f r. parseFile id
        [''16.0.html'' \<mapsto> \<lparr>headingText = ''E.2. Release 16.0'',
                            dateText = ''Release date: 2023-09-14'', listItems = []\<rparr>,
         ''16.1.html'' \<mapsto> \<lparr>headingText = ''E.1. Release 16.1'',
                            dateText = ''Release date: 2023-11-09'',
                            listItems = [''Fix crash in parser (Carol)'']\<rparr>] f = Inr r)
     (filter isReleaseFile [''16.1.html'', ''index.html'', ''16.0.html''])
     [\<lparr>version = ''16.1'', releaseDate = ''2023-11-09'',
       changes = [''Fix crash in parser (Carol)'']\<rparr>,
      \<lparr>version = ''16.0'', releaseDate = ''2023-09-14'', changes = []\<rparr>]
   \<and> (\<exists>rs'. parseReleaseNotes id
        [''16.0.html'' \<mapsto> \<lparr>headingText = ''E.2. Release 16.0'',
                            dateText = ''Release date: 2023-09-14'', listItems = []\<rparr>,
         ''16.1.html'' \<mapsto> \<lparr>headingText = ''E.1. Release 16.1'',
                            dateText = ''Release date: 2023-11-09'',
                            listItems = [''Fix crash in parser (Carol)'']\<rparr>]
        [''16.0.html'', ''16.1.html'', ''index.html''] = Inr rs'
      \<and> mset rs'
          = mset [\<lparr>version = ''16.1'', releaseDate = ''2023-11-09'',
                    changes = [''Fix crash in parser (Carol)'']\<rparr>,
                  \<lparr>version = ''16.0'', releaseDate = ''2023-09-14'', changes = []\<rparr>])
   \<and> parseReleaseNotes id
        [''16.0.html'' \<mapsto> \<lparr>headingText = ''E.2. Release 16.0'',
                            dateText = ''Release date: 2023-09-14'', listItems = []\<rparr>,
         ''16.1.html'' \<mapsto> \<lparr>headingText = ''E.1. Release 16.1'',
                            dateText = ''Release date: 2023-11-09'',
                            listItems = [''Fix crash in parser (Carol)'']\<rparr>]
        [''index.html'', ''16.1.html'', ''16.0.html'']
     = parseReleaseNotes id
        [''16.0.html'' \<mapsto> \<lparr>headingText = ''E.2. Release 16.0'',
                            dateText = ''Release date: 2023-09-14'', listItems = []\<rparr>,
         ''16.1.html'' \<mapsto> \<lparr>headingText = ''E.1. Release 16.1'',
                            dateText = ''Release date: 2023-11-09'',
                            listItems = [''Fix crash in parser (Carol)'']\<rparr>]
        [''16.1.html'', ''index.html'', ''16.0.html'']"
proof -
  let ?cache = "[''16.0.html'' \<mapsto> \<lparr>headingText = ''E.2. Release 16.0'',
                            dateText = ''Release date: 2023-09-14'', listItems = []\<rparr>,
         ''16.1.html'' \<mapsto> \<lparr>headingText = ''E.1. Release 16.1'',
                            dateText = ''Release date: 2023-11-09'',
                            listItems = [''Fix crash in parser (Carol)'']\<rparr>]"
  let ?files = "[''16.1.html'', ''index.html'', ''16.0.html'']"
  let ?rs = "[\<lparr>version = ''16.1'', releaseDate = ''2023-11-09'',
               changes = [''Fix crash in parser (Carol)'']\<rparr>,
              \<lparr>version = ''16.0'', releaseDate = ''2023-09-14'', changes = []\<rparr>]"
  note T = listing_order [of id ?cache ?files ?rs "[''16.0.html'', ''16.1.html'', ''index.html'']"]
  note U = listing_order [of id ?cache ?files ?rs "[''index.html'', ''16.1.html'', ''16.0.html'']"]
  have p: "parseReleaseNotes id ?cache ?files = Inr ?rs"
    by code_simp
  have m: "mset [''16.0.html'', ''16.1.html'', ''index.html''] = mset ?files"
    by (simp add: add_mset_commute)
  have f: "filter isReleaseFile [''index.html'', ''16.1.html'', ''16.0.html'']
      = filter isReleaseFile ?files"
    by code_simp
  from T p have a: "list_all2 (\<lambda>f r. parseFile id ?cache f = Inr r)
      (filter isReleaseFile ?files) ?rs"
    by blast
  from T p m have b: "\<exists>rs'. parseReleaseNotes id ?cache
      [''16.0.html'', ''16.1.html'', ''index.html''] = Inr rs' \<and> mset rs' = mset ?rs"
    by blast
  from U f have c: "parseReleaseNotes id ?cache [''index.html'', ''16.1.html'', ''16.0.html'']
      = parseReleaseNotes id ?cache ?files"
    by blast
  from a b c show ?thesis
    by (intro conjI)
qed

text \<open>
  The claim C2 as written fails: two listings of the same two cached documents that are
  permutations of each other give different outputs, each in the order of its listing;
  the files are not brought into lexical order.
\<close>

theorem listing_order_counterexample:
  "parseReleaseNotes id
     [''16.0.html'' \<mapsto> \<lparr>headingText = ''E.2. Release 16.0'',
                         dateText = ''Release date: 2023-09-14'', listItems = []\<rparr>,
      ''16.1.html'' \<mapsto> \<lparr>headingText = ''E.1. Release 16.1'',
                         dateText = ''Release date: 2023-11-09'',
                         listItems = [''Fix crash in parser (Carol)'']\<rparr>]
     [''16.1.html'', ''16.0.html'']
     = Inr [\<lparr>version = ''16.1'', releaseDate = ''2023-11-09'',
              changes = [''Fix crash in parser (Carol)'']\<rparr>,
            \<lparr>version = ''16.0'', releaseDate = ''2023-09-14'', changes = []\<rparr>]
   \<and> parseReleaseNotes id
     [''16.0.html'' \<mapsto> \<lparr>headingText = ''E.2. Release 16.0'',
                         dateText = ''Release date: 2023-09-14'', listItems = []\<rparr>,
      ''16.1.html'' \<mapsto> \<lparr>headingText = ''E.1. Release 16.1'',
                         dateText = ''Release date: 2023-11-09'',
                         listItems = [''Fix crash in parser (Carol)'']\<rparr>]
     [''16.0.html'', ''16.1.html'']
     = Inr [\<lparr>version = ''16.0'', releaseDate = ''2023-09-14'', changes = []\<rparr>,
            \<lparr>version = ''16.1'', releaseDate = ''2023-11-09'',
              changes = [''Fix crash in parser (Carol)'']\<rparr>]"
  by code_simp


end
